theory Spec2Isabelle
  imports Main "HOL-Library.Word"
begin

unbundle bit_operations_syntax

section \<open>The data of \<open>RotaryEncoder.h\<close>\<close>

text \<open>
  The C++ type \<open>int\<close> and \<open>unsigned int\<close> are words of one width \<open>'w\<close>: 16 bits on
  the Arduino Uno, 32 bits on the ESP8266, the two boards the header names. Signed
  comparisons read a word with \<open>sint\<close>; \<open>+\<close> and \<open>-\<close> wrap around, which is what the
  mixed \<open>int\<close>/\<open>unsigned int\<close> arithmetic of \<open>getCount()+stepWidth\<close> does.
  \<open>unsigned long\<close> is 32 bits on both boards; \<open>uint8_t\<close> and \<open>int8_t\<close> are 8 bits.
\<close>

text \<open>The value of \<open>digitalRead\<close>: \<open>LOW\<close> is 0, \<open>HIGH\<close> is 1.\<close>

datatype level = LOW | HIGH

text \<open>
  \<open>encoderStatus_t\<close> is an enumeration used as a set of bit flags; \<open>operator |\<close> is the
  bitwise or of the underlying values.
\<close>

type_synonym encoderStatus_t = nat

definition None_t :: encoderStatus_t where "None_t = 0"
definition Forward :: encoderStatus_t where "Forward = 1"
definition Reverse :: encoderStatus_t where "Reverse = 2"
definition ButtonPressed :: encoderStatus_t where "ButtonPressed = 4"
definition ButtonLongPressed :: encoderStatus_t where "ButtonLongPressed = 8"
definition ButtonReleased :: encoderStatus_t where "ButtonReleased = 16"

text \<open>A result contains a flag when the flag's bit is set in it.\<close>

definition has_flag :: "encoderStatus_t \<Rightarrow> encoderStatus_t \<Rightarrow> bool" where
  "has_flag r f \<longleftrightarrow> r AND f \<noteq> 0"

text \<open>The protected members of the class.\<close>

record (overloaded) ('w::len) RotaryEncoder =
  phaseAPin :: "8 word"
  phaseBPin :: "8 word"
  switchPin :: "8 word"
  lowerLimit :: "'w word"
  upperLimit :: "'w word"
  stepWidth :: "'w word"
  count :: "'w word"
  encoderStatus :: "'w word"
  switchStatus :: level
  timeout :: "32 word"
  timePressed :: "32 word"
  lastResult :: encoderStatus_t

text \<open>
  What one call of \<open>getStatus\<close> reads from the board: the levels of the three pins and
  the value of \<open>millis()\<close> (the function is called at most once per poll).
\<close>

record sample =
  readA :: level
  readB :: level
  readS :: level
  millis :: "32 word"

section \<open>The operations of \<open>RotaryEncoder.cpp\<close>\<close>

text \<open>The transition table: the row is the input, the column the status.\<close>

definition transition :: "'w::len word list list" where
  "transition =
    [[ 0,  1,  2, -1,  4,  5, -2],
     [ 1,  1,  2,  3,  4,  6,  6],
     [ 4,  1,  3,  3,  4,  5,  6],
     [ 0,  2,  2,  3,  5,  5,  6]]"

text \<open>
  \<open>transition[r][c]\<close>. The rows are addressed by the constants 0 to 3; a column
  outside 0..6 reads outside the row, which is undefined behaviour: \<open>None\<close>.
\<close>

definition transition_at :: "nat \<Rightarrow> int \<Rightarrow> 'w::len word option" where
  "transition_at r c =
     (if 0 \<le> c \<and> c < 7 then Some (transition ! r ! nat c) else None)"

definition RotaryEncoder_init :: "8 word \<Rightarrow> 8 word \<Rightarrow> 8 word \<Rightarrow> ('w::len) RotaryEncoder" where
  "RotaryEncoder_init aPhaseAPin aPhaseBPin aSwitchPin =
     \<lparr> phaseAPin = aPhaseAPin, phaseBPin = aPhaseBPin, switchPin = aSwitchPin,
       lowerLimit = 0, upperLimit = 10, stepWidth = 1, count = 0,
       encoderStatus = 0, switchStatus = LOW, timeout = 0, timePressed = 0,
       lastResult = None_t \<rparr>"

text \<open>\<open>begin\<close>: the calls of \<open>pinMode\<close> change nothing the class can read back.\<close>

definition begin_t :: "('w::len) RotaryEncoder \<Rightarrow> 'w RotaryEncoder" where
  "begin_t st = st\<lparr>encoderStatus := 0, switchStatus := LOW\<rparr>"

definition end_t :: "('w::len) RotaryEncoder \<Rightarrow> 'w RotaryEncoder" where
  "end_t st = st"

definition setSwitchTimeout :: "32 word \<Rightarrow> ('w::len) RotaryEncoder \<Rightarrow> 'w RotaryEncoder" where
  "setSwitchTimeout aTimeout st = st\<lparr>timeout := aTimeout\<rparr>"

definition setCount :: "'w word \<Rightarrow> ('w::len) RotaryEncoder \<Rightarrow> 'w RotaryEncoder" where
  "setCount aCount st =
     (if sint (lowerLimit st) \<le> sint aCount \<and> sint aCount \<le> sint (upperLimit st)
      then st\<lparr>count := aCount\<rparr> else st)"

definition getCount :: "('w::len) RotaryEncoder \<Rightarrow> 'w word" where
  "getCount st = count st"

definition setRange ::
  "'w word \<Rightarrow> 'w word \<Rightarrow> 'w word \<Rightarrow> ('w::len) RotaryEncoder \<Rightarrow> 'w RotaryEncoder" where
  "setRange aLowerLimit aUpperLimit aStepWidth st =
     (let st1 = st\<lparr>lowerLimit := aLowerLimit, upperLimit := aUpperLimit,
                    stepWidth := aStepWidth\<rparr>;
          st2 = (if sint (getCount st1) < sint (lowerLimit st1)
                 then setCount (lowerLimit st1) st1 else st1)
      in if sint (getCount st2) > sint (upperLimit st2)
         then setCount (upperLimit st2) st2 else st2)"

text \<open>
  The part of \<open>getStatus\<close> under ``make status transition'', after the reset of a
  negative status: four \<open>if\<close> statements on the two phases, of which exactly one
  fires, each a single read of the table.
\<close>

definition makeTransition :: "level \<Rightarrow> level \<Rightarrow> 'w::len word \<Rightarrow> 'w word option" where
  "makeTransition a b es =
     (if a = LOW \<and> b = LOW then transition_at 0 (sint es)
      else if a = HIGH \<and> b = LOW then transition_at 1 (sint es)
      else if a = LOW \<and> b = HIGH then transition_at 2 (sint es)
      else if a = HIGH \<and> b = HIGH then transition_at 3 (sint es)
      else Some es)"

text \<open>The part under ``check rotation'': the \<open>switch\<close> on the new status.\<close>

definition checkRotation ::
  "('w::len) RotaryEncoder \<Rightarrow> encoderStatus_t \<times> 'w RotaryEncoder" where
  "checkRotation st =
     (if encoderStatus st = - 1
      then (Forward, setCount (getCount st + stepWidth st) st)
      else if encoderStatus st = - 2
      then (Reverse, setCount (getCount st - stepWidth st) st)
      else (None_t, st))"

text \<open>
  The part under ``Check switch''; \<open>s\<close> is the level of the switch, \<open>now\<close> the value
  of \<open>millis()\<close>. The comparison of the elapsed time is unsigned.
\<close>

definition checkSwitch ::
  "level \<Rightarrow> 32 word \<Rightarrow> encoderStatus_t \<Rightarrow> ('w::len) RotaryEncoder
     \<Rightarrow> encoderStatus_t \<times> 'w RotaryEncoder" where
  "checkSwitch s now result st =
     (if s \<noteq> switchStatus st then
        (if s = HIGH
         then (result OR ButtonPressed, st\<lparr>timePressed := now, switchStatus := s\<rparr>)
         else (result OR ButtonReleased, st\<lparr>timePressed := 0, switchStatus := s\<rparr>))
      else if s = HIGH then
        (if timePressed st \<noteq> 0 \<and> timeout st \<noteq> 0 \<and> now - timePressed st > timeout st
         then (result OR ButtonLongPressed, st\<lparr>timePressed := 0\<rparr>)
         else (result, st))
      else (result, st))"

text \<open>
  \<open>getStatus\<close>. The value is \<open>None\<close> when the poll reads outside the table; otherwise
  the result, whether \<open>delay(10)\<close> was called, and the object after the poll.
\<close>

definition getStatus ::
  "sample \<Rightarrow> ('w::len) RotaryEncoder
     \<Rightarrow> (encoderStatus_t \<times> bool \<times> 'w RotaryEncoder) option" where
  "getStatus x st =
     (let a = readA x; b = readB x;
          s = (if 0 \<le> sint (switchPin st) then readS x else LOW);
          st1 = (if sint (encoderStatus st) < 0 then st\<lparr>encoderStatus := 0\<rparr> else st)
      in case makeTransition a b (encoderStatus st1) of
           None \<Rightarrow> None
         | Some e \<Rightarrow>
             (let (r1, st2) = checkRotation (st1\<lparr>encoderStatus := e\<rparr>);
                  (result, st3) = checkSwitch s (millis x) r1 st2;
                  delayed = (result \<noteq> lastResult st3)
              in Some (result, delayed, st3\<lparr>lastResult := result\<rparr>)))"

text \<open>
  \<open>waitForStatus\<close> polls until a result is not \<open>None\<close>. Each poll reads the board
  again, so the loop runs on the list of the samples the polls will read; when the list
  is used up and every result was \<open>None\<close>, the call has not returned: \<open>Polling\<close>.
\<close>

datatype 's wait_result = Undefined | Polling 's | Returned encoderStatus_t 's

fun waitForStatus ::
  "sample list \<Rightarrow> ('w::len) RotaryEncoder \<Rightarrow> 'w RotaryEncoder wait_result" where
  "waitForStatus [] st = Polling st"
| "waitForStatus (x # xs) st =
     (case getStatus x st of
        None \<Rightarrow> Undefined
      | Some (s, d, st') \<Rightarrow> if s = None_t then waitForStatus xs st' else Returned s st')"

section \<open>Sequences of calls\<close>

text \<open>Successive polls: the results with their delays, and the object at the end.\<close>

fun polls ::
  "sample list \<Rightarrow> ('w::len) RotaryEncoder
     \<Rightarrow> ((encoderStatus_t \<times> bool) list \<times> 'w RotaryEncoder) option" where
  "polls [] st = Some ([], st)"
| "polls (x # xs) st =
     (case getStatus x st of
        None \<Rightarrow> None
      | Some (r, d, st') \<Rightarrow>
          (case polls xs st' of
             None \<Rightarrow> None
           | Some (rs, st'') \<Rightarrow> Some ((r, d) # rs, st'')))"

text \<open>The public operations after the constructor, and a program of them.\<close>

datatype 'i operation =
    Begin | End | SetSwitchTimeout "32 word" | SetRange 'i 'i 'i | SetCount 'i
  | GetCount | GetStatus sample | WaitForStatus "sample list"

fun exec :: "'w word operation \<Rightarrow> ('w::len) RotaryEncoder \<Rightarrow> 'w RotaryEncoder option" where
  "exec Begin st = Some (begin_t st)"
| "exec End st = Some (end_t st)"
| "exec (SetSwitchTimeout t) st = Some (setSwitchTimeout t st)"
| "exec (SetRange l u w) st = Some (setRange l u w st)"
| "exec (SetCount v) st = Some (setCount v st)"
| "exec GetCount st = Some st"
| "exec (GetStatus x) st =
     (case getStatus x st of None \<Rightarrow> None | Some (r, d, st') \<Rightarrow> Some st')"
| "exec (WaitForStatus xs) st =
     (case waitForStatus xs st of
        Undefined \<Rightarrow> None | Polling st' \<Rightarrow> Some st' | Returned r st' \<Rightarrow> Some st')"

fun run :: "'w word operation list \<Rightarrow> ('w::len) RotaryEncoder \<Rightarrow> 'w RotaryEncoder option" where
  "run [] st = Some st"
| "run (c # cs) st = (case exec c st of None \<Rightarrow> None | Some st' \<Rightarrow> run cs st')"

section \<open>One poll, field by field\<close>

text \<open>
  The definitions of this section are not part of the program. They name what one call
  of \<open>getStatus\<close> does to each field, so that the proofs below can rewrite a poll into
  a single record update (lemma \<open>getStatus_eq\<close>).
\<close>

text \<open>The status after the reset of a negative value.\<close>

definition norm_status :: "'w::len word \<Rightarrow> 'w word" where
  "norm_status es = (if sint es < 0 then 0 else es)"

text \<open>The level the poll uses for the switch: \<open>LOW\<close> when no switch pin is set.\<close>

definition switch_level :: "sample \<Rightarrow> ('w::len) RotaryEncoder \<Rightarrow> level" where
  "switch_level x st = (if 0 \<le> sint (switchPin st) then readS x else LOW)"

definition move_flag :: "'w::len word \<Rightarrow> encoderStatus_t" where
  "move_flag e = (if e = - 1 then Forward else if e = - 2 then Reverse else None_t)"

definition accepted :: "'w word \<Rightarrow> ('w::len) RotaryEncoder \<Rightarrow> bool" where
  "accepted v st \<longleftrightarrow> sint (lowerLimit st) \<le> sint v \<and> sint v \<le> sint (upperLimit st)"

definition new_count :: "'w word \<Rightarrow> ('w::len) RotaryEncoder \<Rightarrow> 'w word" where
  "new_count e st =
     (if e = - 1
      then (if accepted (count st + stepWidth st) st then count st + stepWidth st else count st)
      else if e = - 2
      then (if accepted (count st - stepWidth st) st then count st - stepWidth st else count st)
      else count st)"

definition long_press :: "32 word \<Rightarrow> ('w::len) RotaryEncoder \<Rightarrow> bool" where
  "long_press now st \<longleftrightarrow>
     timePressed st \<noteq> 0 \<and> timeout st \<noteq> 0 \<and> now - timePressed st > timeout st"

definition button_flag :: "level \<Rightarrow> 32 word \<Rightarrow> ('w::len) RotaryEncoder \<Rightarrow> encoderStatus_t" where
  "button_flag s now st =
     (if s \<noteq> switchStatus st then (if s = HIGH then ButtonPressed else ButtonReleased)
      else if s = HIGH \<and> long_press now st then ButtonLongPressed else None_t)"

definition new_timePressed :: "level \<Rightarrow> 32 word \<Rightarrow> ('w::len) RotaryEncoder \<Rightarrow> 32 word" where
  "new_timePressed s now st =
     (if s \<noteq> switchStatus st then (if s = HIGH then now else 0)
      else if s = HIGH \<and> long_press now st then 0 else timePressed st)"

definition poll_result :: "sample \<Rightarrow> 'w word \<Rightarrow> ('w::len) RotaryEncoder \<Rightarrow> encoderStatus_t" where
  "poll_result x e st = move_flag e OR button_flag (switch_level x st) (millis x) st"

definition poll_state :: "sample \<Rightarrow> 'w word \<Rightarrow> ('w::len) RotaryEncoder \<Rightarrow> 'w RotaryEncoder" where
  "poll_state x e st =
     st\<lparr>count := new_count e st, encoderStatus := e, switchStatus := switch_level x st,
        timePressed := new_timePressed (switch_level x st) (millis x) st,
        lastResult := poll_result x e st\<rparr>"

section \<open>Predicates of the statements\<close>

text \<open>The status is a table entry: a state 0..6 or one of the two sentinels.\<close>

definition status_ok :: "('w::len) RotaryEncoder \<Rightarrow> bool" where
  "status_ok st \<longleftrightarrow> - 2 \<le> sint (encoderStatus st) \<and> sint (encoderStatus st) \<le> 6"

text \<open>The counter is within its limits.\<close>

definition count_ok :: "('w::len) RotaryEncoder \<Rightarrow> bool" where
  "count_ok st \<longleftrightarrow>
     sint (lowerLimit st) \<le> sint (count st) \<and> sint (count st) \<le> sint (upperLimit st)"

text \<open>No switch pin is set, and the stored level of the switch is the default.\<close>

definition switch_off :: "('w::len) RotaryEncoder \<Rightarrow> bool" where
  "switch_off st \<longleftrightarrow> sint (switchPin st) < 0 \<and> switchStatus st = LOW"

text \<open>A result without any of the three flags of the switch.\<close>

definition no_button :: "encoderStatus_t \<Rightarrow> bool" where
  "no_button r \<longleftrightarrow>
     \<not> has_flag r ButtonPressed \<and> \<not> has_flag r ButtonLongPressed \<and> \<not> has_flag r ButtonReleased"

text \<open>A sample, written in one line.\<close>

definition smp :: "level \<Rightarrow> level \<Rightarrow> level \<Rightarrow> 32 word \<Rightarrow> sample" where
  "smp a b s now = \<lparr>readA = a, readB = b, readS = s, millis = now\<rparr>"

text \<open>The restriction on the calls of \<open>setRange\<close>: the bounds are not inverted.\<close>

fun valid_range :: "'w::len word operation \<Rightarrow> bool" where
  "valid_range (SetRange l u w) = (sint l \<le> sint u)"
| "valid_range _ = True"

text \<open>A result is valid when it joins at most one movement flag and at most one flag of the switch.\<close>

definition valid_result :: "encoderStatus_t \<Rightarrow> bool" where
  "valid_result r \<longleftrightarrow>
     (\<exists>m\<in>{None_t, Forward, Reverse}.
        \<exists>b\<in>{None_t, ButtonPressed, ButtonLongPressed, ButtonReleased}. r = m OR b)"

text \<open>The two phases of a sample, and the two full cycles of the quadrature signal.\<close>

definition phases :: "sample \<Rightarrow> level \<times> level" where
  "phases x = (readA x, readB x)"

definition forward_cycle :: "(level \<times> level) list" where
  "forward_cycle = [(LOW, LOW), (HIGH, LOW), (HIGH, HIGH), (LOW, HIGH), (LOW, LOW)]"

definition reverse_cycle :: "(level \<times> level) list" where
  "reverse_cycle = [(LOW, LOW), (LOW, HIGH), (HIGH, HIGH), (HIGH, LOW), (LOW, LOW)]"



lemmas flag_defs =
  None_t_def Forward_def Reverse_def ButtonPressed_def ButtonLongPressed_def
  ButtonReleased_def

section \<open>Signed values of the constants\<close>

text \<open>
  C++ guarantees at least 16 bits for \<open>int\<close>. In such a width the constants of the
  program have the signed values they are written with.
\<close>

lemma sint_small:
  fixes k :: int
  assumes "16 \<le> LENGTH('w::len)" "- 32768 \<le> k" "k < 32768"
  shows "sint (word_of_int k :: 'w word) = k"
proof -
  have "(2::int) ^ 15 \<le> 2 ^ (LENGTH('w) - 1)"
    using assms(1) by (intro power_increasing) auto
  then have "- (2 ^ (LENGTH('w) - 1)) \<le> k" "k < 2 ^ (LENGTH('w) - 1)"
    using assms(2,3) by simp_all
  then show ?thesis
    by (simp add: sint_sbintrunc' signed_take_bit_int_eq_self)
qed

lemma sint_consts:
  assumes "16 \<le> LENGTH('w::len)"
  shows "sint (1 :: 'w word) = 1" "sint (2 :: 'w word) = 2" "sint (3 :: 'w word) = 3"
    "sint (4 :: 'w word) = 4" "sint (5 :: 'w word) = 5" "sint (6 :: 'w word) = 6"
    "sint (10 :: 'w word) = 10" "sint (- 2 :: 'w word) = - 2"
  using sint_small [OF assms, of 1] sint_small [OF assms, of 2] sint_small [OF assms, of 3]
    sint_small [OF assms, of 4] sint_small [OF assms, of 5] sint_small [OF assms, of 6]
    sint_small [OF assms, of 10] sint_small [OF assms, of "- 2"]
  by simp_all

lemma status_cases:
  fixes es :: "'w::len word"
  assumes "0 \<le> sint es" "sint es \<le> 6"
  obtains "es = 0" | "es = 1" | "es = 2" | "es = 3" | "es = 4" | "es = 5" | "es = 6"
proof -
  have e: "es = word_of_int (sint es)" by simp
  consider "sint es = 0" | "sint es = 1" | "sint es = 2" | "sint es = 3"
    | "sint es = 4" | "sint es = 5" | "sint es = 6"
    using assms by arith
  then show thesis
  proof cases
    case 1 with e have "es = 0" by simp then show ?thesis by (rule that(1))
  next
    case 2 with e have "es = 1" by simp then show ?thesis by (rule that(2))
  next
    case 3 with e have "es = 2" by simp then show ?thesis by (rule that(3))
  next
    case 4 with e have "es = 3" by simp then show ?thesis by (rule that(4))
  next
    case 5 with e have "es = 4" by simp then show ?thesis by (rule that(5))
  next
    case 6 with e have "es = 5" by simp then show ?thesis by (rule that(6))
  next
    case 7 with e have "es = 6" by simp then show ?thesis by (rule that(7))
  qed
qed

section \<open>The transition table\<close>

lemma makeTransition_defined:
  fixes es :: "'w::len word"
  assumes "0 \<le> sint es" "sint es \<le> 6"
  shows "\<exists>e. makeTransition a b es = Some (e :: 'w word)"
  using assms by (cases a; cases b) (simp_all add: makeTransition_def transition_at_def)

lemma makeTransition_undefined:
  fixes es :: "'w::len word"
  assumes "6 < sint es"
  shows "makeTransition a b es = None"
  using assms by (cases a; cases b) (simp_all add: makeTransition_def transition_at_def)

lemma makeTransition_table:
  assumes "16 \<le> LENGTH('w::len)"
  shows
    "makeTransition LOW LOW (0 :: 'w word) = Some 0"
    "makeTransition LOW LOW (1 :: 'w word) = Some 1"
    "makeTransition LOW LOW (2 :: 'w word) = Some 2"
    "makeTransition LOW LOW (3 :: 'w word) = Some (- 1)"
    "makeTransition LOW LOW (4 :: 'w word) = Some 4"
    "makeTransition LOW LOW (5 :: 'w word) = Some 5"
    "makeTransition LOW LOW (6 :: 'w word) = Some (- 2)"
    "makeTransition HIGH LOW (0 :: 'w word) = Some 1"
    "makeTransition HIGH LOW (1 :: 'w word) = Some 1"
    "makeTransition HIGH LOW (2 :: 'w word) = Some 2"
    "makeTransition HIGH LOW (3 :: 'w word) = Some 3"
    "makeTransition HIGH LOW (4 :: 'w word) = Some 4"
    "makeTransition HIGH LOW (5 :: 'w word) = Some 6"
    "makeTransition HIGH LOW (6 :: 'w word) = Some 6"
    "makeTransition LOW HIGH (0 :: 'w word) = Some 4"
    "makeTransition LOW HIGH (1 :: 'w word) = Some 1"
    "makeTransition LOW HIGH (2 :: 'w word) = Some 3"
    "makeTransition LOW HIGH (3 :: 'w word) = Some 3"
    "makeTransition LOW HIGH (4 :: 'w word) = Some 4"
    "makeTransition LOW HIGH (5 :: 'w word) = Some 5"
    "makeTransition LOW HIGH (6 :: 'w word) = Some 6"
    "makeTransition HIGH HIGH (0 :: 'w word) = Some 0"
    "makeTransition HIGH HIGH (1 :: 'w word) = Some 2"
    "makeTransition HIGH HIGH (2 :: 'w word) = Some 2"
    "makeTransition HIGH HIGH (3 :: 'w word) = Some 3"
    "makeTransition HIGH HIGH (4 :: 'w word) = Some 5"
    "makeTransition HIGH HIGH (5 :: 'w word) = Some 5"
    "makeTransition HIGH HIGH (6 :: 'w word) = Some 6"
  unfolding makeTransition_def sint_consts [OF assms] sint_0
  by (simp_all add: transition_at_def transition_def)

section \<open>One poll as a record update\<close>

lemma checkRotation_eq:
  "checkRotation st = (move_flag (encoderStatus st), st\<lparr>count := new_count (encoderStatus st) st\<rparr>)"
  by (simp add: checkRotation_def move_flag_def new_count_def setCount_def getCount_def
      accepted_def)

lemma checkSwitch_eq:
  "checkSwitch s now r st =
     (r OR button_flag s now st,
      st\<lparr>switchStatus := s, timePressed := new_timePressed s now st\<rparr>)"
  by (cases s; cases "switchStatus st")
    (simp_all add: checkSwitch_def button_flag_def new_timePressed_def long_press_def None_t_def)

lemma getStatus_eq:
  "getStatus x st =
     (case makeTransition (readA x) (readB x) (norm_status (encoderStatus st)) of
        None \<Rightarrow> None
      | Some e \<Rightarrow> Some (poll_result x e st, poll_result x e st \<noteq> lastResult st, poll_state x e st))"
proof -
  have n: "(if sint (encoderStatus st) < 0 then st\<lparr>encoderStatus := 0\<rparr> else st)
             = st\<lparr>encoderStatus := norm_status (encoderStatus st)\<rparr>"
    by (simp add: norm_status_def)
  show ?thesis
    unfolding getStatus_def Let_def n
    by (simp add: checkRotation_eq checkSwitch_eq poll_result_def poll_state_def
        switch_level_def new_count_def accepted_def new_timePressed_def long_press_def
        button_flag_def split: option.split)
qed

section \<open>The counter: \<open>setCount\<close> and \<open>setRange\<close>\<close>

text \<open>
  C5. For every argument \<open>v\<close> and every object, \<open>setCount v\<close> changes nothing when
  \<open>v\<close> is below \<open>lowerLimit\<close> or above \<open>upperLimit\<close> (and returns nothing: the call
  gives no signal), and when \<open>lowerLimit \<le> v \<le> upperLimit\<close> it sets the counter to
  exactly \<open>v\<close> and changes no other field.
\<close>

theorem setCount_spec:
  "((sint v < sint (lowerLimit st) \<or> sint v > sint (upperLimit st)) \<longrightarrow> setCount v st = st) \<and>
   ((sint (lowerLimit st) \<le> sint v \<and> sint v \<le> sint (upperLimit st))
      \<longrightarrow> setCount v st = st\<lparr>count := v\<rparr>)"
  by (simp add: setCount_def)

theorem setCount_spec_witness:
  "setCount 11 (RotaryEncoder_init 2 3 (- 1) :: 16 RotaryEncoder) = RotaryEncoder_init 2 3 (- 1) \<and>
   setCount (- 1) (RotaryEncoder_init 2 3 (- 1) :: 16 RotaryEncoder) = RotaryEncoder_init 2 3 (- 1) \<and>
   setCount 7 (RotaryEncoder_init 2 3 (- 1) :: 16 RotaryEncoder)
     = (RotaryEncoder_init 2 3 (- 1))\<lparr>count := 7\<rparr>"
  using setCount_spec [of 11 "RotaryEncoder_init 2 3 (- 1) :: 16 RotaryEncoder"]
    setCount_spec [of "- 1" "RotaryEncoder_init 2 3 (- 1) :: 16 RotaryEncoder"]
    setCount_spec [of 7 "RotaryEncoder_init 2 3 (- 1) :: 16 RotaryEncoder"]
  by (simp add: RotaryEncoder_init_def)

text \<open>
  C6. For every call \<open>setRange l u s\<close> with \<open>l \<le> u\<close>, afterwards \<open>lowerLimit = l\<close>,
  \<open>upperLimit = u\<close>, \<open>stepWidth = s\<close>, and the counter is brought back into
  \<open>[l, u]\<close>: a count below \<open>l\<close> becomes \<open>l\<close>, a count above \<open>u\<close> becomes \<open>u\<close>, a
  count inside stays. No other field changes.
\<close>

theorem setRange_reclamps:
  assumes "sint l \<le> sint u"
  shows "setRange l u s st =
    st\<lparr>lowerLimit := l, upperLimit := u, stepWidth := s,
       count := (if sint (count st) < sint l then l
                 else if sint (count st) > sint u then u else count st)\<rparr>"
  using assms by (simp add: setRange_def setCount_def getCount_def Let_def)

theorem setRange_reclamps_witness:
  "setRange 3 8 2 (RotaryEncoder_init 2 3 (- 1) :: 16 RotaryEncoder)
     = (RotaryEncoder_init 2 3 (- 1))\<lparr>lowerLimit := 3, upperLimit := 8, stepWidth := 2, count := 3\<rparr> \<and>
   setRange (- 8) (- 3) 2 (RotaryEncoder_init 2 3 (- 1) :: 16 RotaryEncoder)
     = (RotaryEncoder_init 2 3 (- 1))\<lparr>lowerLimit := - 8, upperLimit := - 3, stepWidth := 2,
          count := - 3\<rparr> \<and>
   setRange (- 8) 8 2 (RotaryEncoder_init 2 3 (- 1) :: 16 RotaryEncoder)
     = (RotaryEncoder_init 2 3 (- 1))\<lparr>lowerLimit := - 8, upperLimit := 8, stepWidth := 2, count := 0\<rparr>"
  using setRange_reclamps [of 3 8 2 "RotaryEncoder_init 2 3 (- 1) :: 16 RotaryEncoder"]
    setRange_reclamps [of "- 8" "- 3" 2 "RotaryEncoder_init 2 3 (- 1) :: 16 RotaryEncoder"]
    setRange_reclamps [of "- 8" 8 2 "RotaryEncoder_init 2 3 (- 1) :: 16 RotaryEncoder"]
  by (simp add: RotaryEncoder_init_def)

text \<open>
  C9. For every call \<open>setRange l u s\<close> with \<open>l > u\<close>, the limits and the step width
  are updated and the counter is left as it was, also when it lies outside both new
  bounds: both \<open>setCount\<close> calls of the reclamping are rejected.
\<close>

theorem setRange_inverted:
  assumes "sint l > sint u"
  shows "setRange l u s st = st\<lparr>lowerLimit := l, upperLimit := u, stepWidth := s\<rparr>"
  using assms by (simp add: setRange_def setCount_def getCount_def Let_def)

theorem setRange_inverted_witness:
  "setRange 5 3 1 (RotaryEncoder_init 2 3 (- 1) :: 16 RotaryEncoder)
     = (RotaryEncoder_init 2 3 (- 1))\<lparr>lowerLimit := 5, upperLimit := 3, stepWidth := 1\<rparr> \<and>
   count (setRange 5 3 1 (RotaryEncoder_init 2 3 (- 1) :: 16 RotaryEncoder)) = 0"
  using setRange_inverted [of 3 5 1 "RotaryEncoder_init 2 3 (- 1) :: 16 RotaryEncoder"]
  by (simp add: RotaryEncoder_init_def)

section \<open>Facts about one poll\<close>

lemma poll_state_simps [simp]:
  "count (poll_state x e st) = new_count e st"
  "encoderStatus (poll_state x e st) = e"
  "switchStatus (poll_state x e st) = switch_level x st"
  "timePressed (poll_state x e st) = new_timePressed (switch_level x st) (millis x) st"
  "lastResult (poll_state x e st) = poll_result x e st"
  "lowerLimit (poll_state x e st) = lowerLimit st"
  "upperLimit (poll_state x e st) = upperLimit st"
  "stepWidth (poll_state x e st) = stepWidth st"
  "switchPin (poll_state x e st) = switchPin st"
  "timeout (poll_state x e st) = timeout st"
  "phaseAPin (poll_state x e st) = phaseAPin st"
  "phaseBPin (poll_state x e st) = phaseBPin st"
  by (simp_all add: poll_state_def)

lemma norm_status_range:
  assumes "sint es \<le> 6"
  shows "0 \<le> sint (norm_status es)" "sint (norm_status es) \<le> 6"
  using assms by (simp_all add: norm_status_def)

lemma makeTransition_entries:
  fixes es :: "'w::len word"
  assumes len: "16 \<le> LENGTH('w)" and "0 \<le> sint es" "sint es \<le> 6"
    and "makeTransition a b es = Some e"
  shows "e \<in> {- 2, - 1, 0, 1, 2, 3, 4, 5, 6}"
  using assms(2,3)
proof (cases es rule: status_cases)
  case 1 with assms(4) show ?thesis by (cases a; cases b) (auto simp: makeTransition_table [OF len])
next
  case 2 with assms(4) show ?thesis by (cases a; cases b) (auto simp: makeTransition_table [OF len])
next
  case 3 with assms(4) show ?thesis by (cases a; cases b) (auto simp: makeTransition_table [OF len])
next
  case 4 with assms(4) show ?thesis by (cases a; cases b) (auto simp: makeTransition_table [OF len])
next
  case 5 with assms(4) show ?thesis by (cases a; cases b) (auto simp: makeTransition_table [OF len])
next
  case 6 with assms(4) show ?thesis by (cases a; cases b) (auto simp: makeTransition_table [OF len])
next
  case 7 with assms(4) show ?thesis by (cases a; cases b) (auto simp: makeTransition_table [OF len])
qed

lemma entries_sint:
  fixes e :: "'w::len word"
  assumes len: "16 \<le> LENGTH('w)" and "e \<in> {- 2, - 1, 0, 1, 2, 3, 4, 5, 6}"
  shows "- 2 \<le> sint e \<and> sint e \<le> 6"
proof -
  from assms(2) consider "e = - 2" | "e = - 1" | "e = 0" | "e = 1" | "e = 2" | "e = 3"
    | "e = 4" | "e = 5" | "e = 6" by auto
  then show ?thesis
  proof cases
    case 1 then show ?thesis unfolding 1 sint_consts [OF len] by simp
  next
    case 2 then show ?thesis by simp
  next
    case 3 then show ?thesis by simp
  next
    case 4 then show ?thesis unfolding 4 sint_consts [OF len] by simp
  next
    case 5 then show ?thesis unfolding 5 sint_consts [OF len] by simp
  next
    case 6 then show ?thesis unfolding 6 sint_consts [OF len] by simp
  next
    case 7 then show ?thesis unfolding 7 sint_consts [OF len] by simp
  next
    case 8 then show ?thesis unfolding 8 sint_consts [OF len] by simp
  next
    case 9 then show ?thesis unfolding 9 sint_consts [OF len] by simp
  qed
qed

lemma getStatus_SomeE:
  assumes "getStatus x st = Some (r, d, st')"
  obtains e where
    "makeTransition (readA x) (readB x) (norm_status (encoderStatus st)) = Some e"
    "r = poll_result x e st" "d = (r \<noteq> lastResult st)" "st' = poll_state x e st"
  using assms unfolding getStatus_eq by (auto split: option.splits)

lemma getStatus_okE:
  assumes "sint (encoderStatus st) \<le> 6"
  obtains e where
    "makeTransition (readA x) (readB x) (norm_status (encoderStatus st)) = Some e"
    "getStatus x st
       = Some (poll_result x e st, poll_result x e st \<noteq> lastResult st, poll_state x e st)"
proof -
  obtain e where e: "makeTransition (readA x) (readB x) (norm_status (encoderStatus st)) = Some e"
    using makeTransition_defined [OF norm_status_range [OF assms]] by blast
  then have "getStatus x st
       = Some (poll_result x e st, poll_result x e st \<noteq> lastResult st, poll_state x e st)"
    unfolding getStatus_eq by simp
  with e show thesis by (rule that)
qed

lemma getStatus_status_ok:
  fixes st :: "('w::len) RotaryEncoder"
  assumes len: "16 \<le> LENGTH('w)" and "status_ok st" and "getStatus x st = Some (r, d, st')"
  shows "status_ok st'"
proof -
  from assms(3) obtain e where
    e: "makeTransition (readA x) (readB x) (norm_status (encoderStatus st)) = Some e"
    and st': "st' = poll_state x e st"
    by (rule getStatus_SomeE)
  from assms(2) have "sint (encoderStatus st) \<le> 6" by (simp add: status_ok_def)
  from makeTransition_entries [OF len norm_status_range [OF this] e]
  show ?thesis unfolding st' status_ok_def poll_state_simps
    by (rule entries_sint [OF len])
qed

lemma new_count_ok:
  assumes "count_ok st"
  shows "sint (lowerLimit st) \<le> sint (new_count e st) \<and> sint (new_count e st) \<le> sint (upperLimit st)"
  using assms by (simp add: count_ok_def new_count_def accepted_def)

lemma getStatus_count_ok:
  assumes "count_ok st" and "getStatus x st = Some (r, d, st')"
  shows "count_ok st'"
proof -
  from assms(2) obtain e where st': "st' = poll_state x e st"
    by (rule getStatus_SomeE)
  show ?thesis unfolding st' using new_count_ok [OF assms(1), of e]
    by (simp add: count_ok_def)
qed


section \<open>Invariants of sequences of calls\<close>

lemma waitForStatus_preserves:
  assumes step: "\<And>x st r d st'. P st \<Longrightarrow> getStatus x st = Some (r, d, st') \<Longrightarrow> P st'"
    and "P st"
  shows "(waitForStatus xs st = Polling st' \<longrightarrow> P st') \<and>
         (waitForStatus xs st = Returned r st' \<longrightarrow> P st')"
  using assms(2)
proof (induction xs arbitrary: st)
  case Nil
  then show ?case by auto
next
  case (Cons x xs)
  show ?case
  proof (cases "getStatus x st")
    case None
    then show ?thesis by simp
  next
    case (Some t)
    obtain r1 d1 st1 where t: "t = (r1, d1, st1)" by (cases t)
    have "P st1" using step [OF Cons.prems] Some t by simp
    from Cons.IH [OF this] show ?thesis using Some t \<open>P st1\<close> by auto
  qed
qed

lemma waitForStatus_defined:
  assumes step: "\<And>x st. P st \<Longrightarrow> \<exists>r d st'. getStatus x st = Some (r, d, st') \<and> P st'"
    and "P st"
  shows "waitForStatus xs st \<noteq> Undefined"
  using assms(2)
proof (induction xs arbitrary: st)
  case Nil
  then show ?case by simp
next
  case (Cons x xs)
  from step [OF Cons.prems] obtain r d st' where g: "getStatus x st = Some (r, d, st')" and "P st'"
    by blast
  from Cons.IH [OF \<open>P st'\<close>] show ?case using g by simp
qed

lemma exec_preserves:
  assumes step: "\<And>x st r d st'. P st \<Longrightarrow> getStatus x st = Some (r, d, st') \<Longrightarrow> P st'"
    and "P st \<Longrightarrow> P (begin_t st)"
    and "\<And>t. P st \<Longrightarrow> P (setSwitchTimeout t st)"
    and "\<And>l u w. c = SetRange l u w \<Longrightarrow> P st \<Longrightarrow> P (setRange l u w st)"
    and "\<And>v. P st \<Longrightarrow> P (setCount v st)"
    and "P st" and "exec c st = Some st'"
  shows "P st'"
proof (cases c)
  case (GetStatus x)
  with assms(7) obtain r d where "getStatus x st = Some (r, d, st')"
    by (auto split: option.splits)
  with step assms(6) show ?thesis by blast
next
  case (WaitForStatus xs)
  with assms(7) have "waitForStatus xs st = Polling st' \<or> (\<exists>r. waitForStatus xs st = Returned r st')"
    by (auto split: wait_result.splits)
  with waitForStatus_preserves [of P st xs st'] step assms(6) show ?thesis by blast
qed (use assms in \<open>auto simp: end_t_def\<close>)

lemma exec_defined:
  assumes step: "\<And>x st. P st \<Longrightarrow> \<exists>r d st'. getStatus x st = Some (r, d, st') \<and> P st'"
    and "P st"
  shows "\<exists>st'. exec c st = Some st'"
proof (cases c)
  case (GetStatus x)
  with step [OF assms(2), of x] show ?thesis by auto
next
  case (WaitForStatus xs)
  with waitForStatus_defined [of P st xs] step assms(2) show ?thesis
    by (cases "waitForStatus xs st") auto
qed simp_all


lemma waitForStatus_Returned:
  assumes step: "\<And>x st r d st'. P st \<Longrightarrow> getStatus x st = Some (r, d, st') \<Longrightarrow> P st'"
    and "P st" and "waitForStatus xs st = Returned r st'"
  shows "\<exists>x st0 d. P st0 \<and> getStatus x st0 = Some (r, d, st') \<and> r \<noteq> None_t"
  using assms(2,3)
proof (induction xs arbitrary: st)
  case Nil
  then show ?case by simp
next
  case (Cons x xs)
  show ?case
  proof (cases "getStatus x st")
    case None
    with Cons.prems show ?thesis by simp
  next
    case (Some t)
    obtain r1 d1 st1 where t: "t = (r1, d1, st1)" by (cases t)
    show ?thesis
    proof (cases "r1 = None_t")
      case True
      have "P st1" using step [OF Cons.prems(1)] Some t by simp
      moreover have "waitForStatus xs st1 = Returned r st'"
        using Cons.prems(2) Some t True by simp
      ultimately show ?thesis by (rule Cons.IH)
    next
      case False
      with Cons.prems(2) Some t have "r1 = r" "st1 = st'" by simp_all
      with Some t False Cons.prems(1) show ?thesis by blast
    qed
  qed
qed

subsection \<open>The status stays in the table\<close>

lemma getStatus_status_step:
  fixes st :: "('w::len) RotaryEncoder"
  assumes len: "16 \<le> LENGTH('w)" and ok: "status_ok st"
  shows "\<exists>r d st'. getStatus x st = Some (r, d, st') \<and> status_ok st'"
proof -
  from ok have "sint (encoderStatus st) \<le> 6" by (simp add: status_ok_def)
  then obtain e where "getStatus x st
       = Some (poll_result x e st, poll_result x e st \<noteq> lastResult st, poll_state x e st)"
    by (rule getStatus_okE)
  with getStatus_status_ok [OF len ok] show ?thesis by blast
qed

lemma exec_status_ok:
  fixes st :: "('w::len) RotaryEncoder"
  assumes len: "16 \<le> LENGTH('w)" and ok: "status_ok st"
  shows "\<exists>st'. exec c st = Some st' \<and> status_ok st'"
proof -
  obtain st' where e: "exec c st = Some st'"
    using exec_defined [of status_ok st c] getStatus_status_step [OF len] ok by blast
  have "status_ok st'"
  proof (rule exec_preserves [of status_ok st c st'])
    show "status_ok (begin_t st)" by (simp add: status_ok_def begin_t_def)
    show "status_ok (setSwitchTimeout t st)" for t
      using ok by (simp add: status_ok_def setSwitchTimeout_def)
    show "status_ok (setRange l u w st)" for l u w
      using ok by (simp add: status_ok_def setRange_def setCount_def getCount_def Let_def)
    show "status_ok (setCount v st)" for v
      using ok by (simp add: status_ok_def setCount_def)
  qed (use ok e getStatus_status_ok [OF len] in auto)
  with e show ?thesis by blast
qed

lemma run_status_ok:
  fixes st :: "('w::len) RotaryEncoder"
  assumes len: "16 \<le> LENGTH('w)" and "status_ok st"
  shows "\<exists>st'. run cs st = Some st' \<and> status_ok st'"
  using assms(2)
proof (induction cs arbitrary: st)
  case Nil
  then show ?case by simp
next
  case (Cons c cs)
  from exec_status_ok [OF len Cons.prems] obtain st1 where
    "exec c st = Some st1" "status_ok st1" by blast
  with Cons.IH [of st1] show ?case by simp
qed

lemma init_status_ok: "status_ok (RotaryEncoder_init pa pb sp)"
  by (simp add: status_ok_def RotaryEncoder_init_def)

subsection \<open>The counter stays within its limits\<close>

lemma exec_count_ok:
  assumes "count_ok st" "valid_range c" "exec c st = Some st'"
  shows "count_ok st'"
proof (rule exec_preserves [of count_ok st c st'])
  show "count_ok (begin_t st)" using assms(1) by (simp add: count_ok_def begin_t_def)
  show "count_ok (setSwitchTimeout t st)" for t
    using assms(1) by (simp add: count_ok_def setSwitchTimeout_def)
  show "count_ok (setRange l u w st)" if "c = SetRange l u w" for l u w
  proof -
    from that assms(2) have "sint l \<le> sint u" by simp
    then show ?thesis
      by (simp add: count_ok_def setRange_def setCount_def getCount_def Let_def)
  qed
  show "count_ok (setCount v st)" for v
    using assms(1) by (simp add: count_ok_def setCount_def)
qed (use assms getStatus_count_ok in auto)

lemma run_count_ok:
  assumes "count_ok st" "\<forall>c\<in>set cs. valid_range c" "run cs st = Some st'"
  shows "count_ok st'"
  using assms
proof (induction cs arbitrary: st)
  case Nil
  then show ?case by simp
next
  case (Cons c cs)
  from Cons.prems(3) obtain st1 where e: "exec c st = Some st1" and r: "run cs st1 = Some st'"
    by (auto split: option.splits)
  from exec_count_ok [OF Cons.prems(1) _ e] Cons.prems(2) have "count_ok st1" by simp
  from Cons.IH [OF this _ r] Cons.prems(2) show ?case by simp
qed


subsection \<open>Without a switch pin\<close>

lemma getStatus_switch_off:
  assumes "switch_off st" "getStatus x st = Some (r, d, st')"
  shows "switch_off st'" "no_button r"
proof -
  from assms(2) obtain e where r: "r = poll_result x e st" and st': "st' = poll_state x e st"
    by (rule getStatus_SomeE)
  from assms(1) have l: "switch_level x st = LOW" and s: "switchStatus st = LOW"
    by (simp_all add: switch_off_def switch_level_def)
  show "switch_off st'"
    using assms(1) l by (simp add: st' switch_off_def)
  have "button_flag LOW (millis x) st = None_t"
    using s by (simp add: button_flag_def)
  then have "r = move_flag e"
    by (simp add: r poll_result_def l None_t_def)
  then show "no_button r"
    by (simp add: no_button_def has_flag_def move_flag_def flag_defs)
qed

lemma exec_switch_off:
  assumes "switch_off st" "exec c st = Some st'"
  shows "switch_off st'"
proof (rule exec_preserves [of switch_off st c st'])
  show "switch_off (begin_t st)" using assms(1) by (simp add: switch_off_def begin_t_def)
  show "switch_off (setSwitchTimeout t st)" for t
    using assms(1) by (simp add: switch_off_def setSwitchTimeout_def)
  show "switch_off (setRange l u w st)" for l u w
    using assms(1) by (simp add: switch_off_def setRange_def setCount_def getCount_def Let_def)
  show "switch_off (setCount v st)" for v
    using assms(1) by (simp add: switch_off_def setCount_def)
qed (use assms getStatus_switch_off(1) in auto)

lemma run_switch_off:
  assumes "switch_off st" "run cs st = Some st'"
  shows "switch_off st'"
  using assms
proof (induction cs arbitrary: st)
  case Nil
  then show ?case by simp
next
  case (Cons c cs)
  from Cons.prems(2) obtain st1 where e: "exec c st = Some st1" and r: "run cs st1 = Some st'"
    by (auto split: option.splits)
  from Cons.IH [OF exec_switch_off [OF Cons.prems(1) e] r] show ?case .
qed

lemma getStatus_ignores_switch:
  assumes "sint (switchPin st) < 0"
  shows "getStatus (x\<lparr>readS := v\<rparr>) st = getStatus x st"
proof -
  have "poll_result (x\<lparr>readS := v\<rparr>) e st = poll_result x e st"
    "poll_state (x\<lparr>readS := v\<rparr>) e st = poll_state x e st" for e
    using assms by (simp_all add: poll_result_def poll_state_def switch_level_def)
  then show ?thesis unfolding getStatus_eq by (simp split: option.split)
qed

section \<open>Evaluation at concrete inputs\<close>

lemmas eval_defs =
  getStatus_def makeTransition_def transition_at_def transition_def checkRotation_def
  checkSwitch_def setCount_def getCount_def setRange_def begin_t_def end_t_def
  setSwitchTimeout_def RotaryEncoder_init_def smp_def Let_def flag_defs

section \<open>Claims about every sequence of calls\<close>

text \<open>
  C10. With an \<open>int\<close> of at least 16 bits: starting from the constructor
  (status 0), after every sequence of public operations, every poll so far has read
  inside the table (the run is defined), the stored status is in \<open>{-2, \<dots>, 6}\<close>,
  and the index the next poll uses after the reset of a negative value is within 0..6:
  a status above 6 never arises.
\<close>

theorem status_stays_in_table:
  fixes cs :: "'w::len word operation list"
  assumes "16 \<le> LENGTH('w)"
  shows "\<exists>st. run cs (RotaryEncoder_init pa pb sp) = Some st
           \<and> - 2 \<le> sint (encoderStatus st) \<and> sint (encoderStatus st) \<le> 6
           \<and> 0 \<le> sint (norm_status (encoderStatus st))
           \<and> sint (norm_status (encoderStatus st)) \<le> 6"
proof -
  obtain st where r: "run cs (RotaryEncoder_init pa pb sp) = Some st" and ok: "status_ok st"
    using run_status_ok [OF assms init_status_ok] by blast
  from ok have "sint (encoderStatus st) \<le> 6" by (simp add: status_ok_def)
  from norm_status_range [OF this] r ok show ?thesis
    by (auto simp: status_ok_def)
qed

theorem status_stays_in_table_witness:
  "16 \<le> LENGTH(16) \<and>
   (\<exists>st. run [GetStatus (smp HIGH LOW LOW 1), SetCount 4, GetStatus (smp HIGH HIGH LOW 2),
              Begin, WaitForStatus [smp LOW HIGH LOW 3, smp LOW LOW LOW 4]]
          (RotaryEncoder_init 2 3 (- 1) :: 16 RotaryEncoder) = Some st
           \<and> - 2 \<le> sint (encoderStatus st) \<and> sint (encoderStatus st) \<le> 6
           \<and> 0 \<le> sint (norm_status (encoderStatus st))
           \<and> sint (norm_status (encoderStatus st)) \<le> 6)"
proof -
  have h: "16 \<le> LENGTH(16)" by simp
  from status_stays_in_table [OF h] h show ?thesis by blast
qed

text \<open>
  C4. With an \<open>int\<close> of at least 16 bits: starting from the constructor
  (counter 0, range [0, 10]), along every sequence of public operations whose
  \<open>setRange\<close> calls all have \<open>lowerLimit \<le> upperLimit\<close>, after every operation the
  run is defined and \<open>lowerLimit \<le> count \<le> upperLimit\<close>. A \<open>waitForStatus\<close> that
  has not returned is taken at the polls it has made.
\<close>

theorem count_stays_in_range:
  fixes cs :: "'w::len word operation list"
  assumes "16 \<le> LENGTH('w)" and "\<forall>c\<in>set cs. valid_range c"
  shows "\<forall>n\<le>length cs. \<exists>st. run (take n cs) (RotaryEncoder_init pa pb sp) = Some st
           \<and> sint (lowerLimit st) \<le> sint (count st) \<and> sint (count st) \<le> sint (upperLimit st)"
proof (intro allI impI)
  fix n assume "n \<le> length cs"
  let ?init = "RotaryEncoder_init pa pb sp :: 'w RotaryEncoder"
  obtain st where r: "run (take n cs) ?init = Some st"
    using run_status_ok [OF assms(1) init_status_ok] by blast
  have "lowerLimit ?init = 0" "count ?init = 0" "upperLimit ?init = 10"
    by (simp_all add: RotaryEncoder_init_def)
  then have "count_ok ?init"
    unfolding count_ok_def by (simp only: sint_0 sint_consts [OF assms(1)]) simp
  moreover have "\<forall>c\<in>set (take n cs). valid_range c"
    using assms(2) by (meson in_set_takeD)
  ultimately have "count_ok st" using r by (rule run_count_ok)
  with r show "\<exists>st. run (take n cs) ?init = Some st
           \<and> sint (lowerLimit st) \<le> sint (count st) \<and> sint (count st) \<le> sint (upperLimit st)"
    by (auto simp: count_ok_def)
qed

theorem count_stays_in_range_witness:
  "\<exists>st. run [SetRange 2 5 4, GetStatus (smp HIGH LOW LOW 1), SetCount 4, SetRange (- 3) (- 1) 1,
             WaitForStatus [smp LOW HIGH LOW 3, smp LOW LOW LOW 4]]
          (RotaryEncoder_init 2 3 (- 1) :: 16 RotaryEncoder) = Some st
        \<and> sint (lowerLimit st) \<le> sint (count st) \<and> sint (count st) \<le> sint (upperLimit st)"
proof -
  let ?cs = "[SetRange 2 5 4, GetStatus (smp HIGH LOW LOW 1), SetCount 4, SetRange (- 3) (- 1) 1,
             WaitForStatus [smp LOW HIGH LOW 3, smp LOW LOW LOW 4]] :: 16 word operation list"
  have h1: "16 \<le> LENGTH(16)" by simp
  have h2: "\<forall>c\<in>set ?cs. valid_range c" by simp
  from count_stays_in_range [OF h1 h2, rule_format, of 5 2 3 "- 1"] show ?thesis by simp
qed

text \<open>
  C8. When the object was constructed without a switch pin (a negative pin number,
  the default \<open>-1\<close> among them), then after every sequence of public operations no
  call of \<open>getStatus\<close> or \<open>waitForStatus\<close> returns a result with \<open>ButtonPressed\<close>,
  \<open>ButtonLongPressed\<close> or \<open>ButtonReleased\<close>, and the poll does not depend on the level
  of the switch line: it runs on the default level \<open>LOW\<close>.
\<close>

theorem disabled_switch_is_silent:
  assumes "sint sp < 0" and "run cs (RotaryEncoder_init pa pb sp) = Some st"
  shows "(getStatus x st = Some (r, d, st') \<longrightarrow> no_button r) \<and>
         (waitForStatus xs st = Returned r st' \<longrightarrow> no_button r) \<and>
         getStatus (x\<lparr>readS := v\<rparr>) st = getStatus x st"
proof -
  have "switch_off (RotaryEncoder_init pa pb sp)"
    using assms(1) by (simp add: switch_off_def RotaryEncoder_init_def)
  then have off: "switch_off st" using assms(2) by (rule run_switch_off)
  have 1: "getStatus x st = Some (r, d, st') \<longrightarrow> no_button r"
    using getStatus_switch_off(2) [OF off] by blast
  have 2: "waitForStatus xs st = Returned r st' \<longrightarrow> no_button r"
  proof
    assume "waitForStatus xs st = Returned r st'"
    with waitForStatus_Returned [of switch_off st xs r st'] getStatus_switch_off(1) off
    obtain y st0 d0 where "switch_off st0" "getStatus y st0 = Some (r, d0, st')"
      by blast
    then show "no_button r" by (rule getStatus_switch_off(2))
  qed
  from off have "sint (switchPin st) < 0" by (simp add: switch_off_def)
  from getStatus_ignores_switch [OF this] 1 2 show ?thesis by blast
qed


theorem disabled_switch_is_silent_witness:
  "sint (- 1 :: 8 word) < 0 \<and>
   run [Begin, GetStatus (smp HIGH LOW HIGH 5)] (RotaryEncoder_init 2 3 (- 1) :: 16 RotaryEncoder)
     = Some ((RotaryEncoder_init 2 3 (- 1))\<lparr>encoderStatus := 1\<rparr>) \<and>
   getStatus (smp LOW LOW HIGH 9) ((RotaryEncoder_init 2 3 (- 1) :: 16 RotaryEncoder)\<lparr>encoderStatus := 3\<rparr>)
     = Some (Forward, True,
         (RotaryEncoder_init 2 3 (- 1))\<lparr>encoderStatus := - 1, count := 1, lastResult := Forward\<rparr>) \<and>
   no_button Forward"
proof -
  let ?init = "RotaryEncoder_init 2 3 (- 1) :: 16 RotaryEncoder"
  have h1: "sint (- 1 :: 8 word) < 0" by simp
  have h2: "run [Begin, GetStatus (smp HIGH LOW HIGH 5), GetStatus (smp HIGH HIGH HIGH 6),
               GetStatus (smp LOW HIGH HIGH 7)] ?init
              = Some (?init\<lparr>encoderStatus := 3\<rparr>)"
    by (simp add: eval_defs)
  have h3: "run [Begin, GetStatus (smp HIGH LOW HIGH 5)] ?init = Some (?init\<lparr>encoderStatus := 1\<rparr>)"
    by (simp add: eval_defs)
  have h4: "getStatus (smp LOW LOW HIGH 9) (?init\<lparr>encoderStatus := 3\<rparr>)
     = Some (Forward, True, ?init\<lparr>encoderStatus := - 1, count := 1, lastResult := Forward\<rparr>)"
    by (simp add: eval_defs)
  from disabled_switch_is_silent [OF h1 h2, of "smp LOW LOW HIGH 9" Forward True
      "?init\<lparr>encoderStatus := - 1, count := 1, lastResult := Forward\<rparr>"] h4
  have "no_button Forward" by simp
  with h1 h3 h4 show ?thesis by simp
qed

section \<open>Out-of-range status values\<close>

lemma poll_result_valid: "valid_result (poll_result x e st)"
  unfolding valid_result_def poll_result_def
  by (intro bexI [of _ "move_flag e"] bexI [of _ "button_flag (switch_level x st) (millis x) st"])
    (simp_all add: move_flag_def button_flag_def)

lemma poll_reset_status:
  "poll_result x e (st\<lparr>encoderStatus := v\<rparr>) = poll_result x e st"
  "poll_state x e (st\<lparr>encoderStatus := v\<rparr>) = poll_state x e st"
  "lastResult (st\<lparr>encoderStatus := v\<rparr>) = lastResult st"
  by (simp_all add: poll_result_def poll_state_def switch_level_def button_flag_def
      long_press_def new_timePressed_def new_count_def accepted_def)

text \<open>
  C3, as amended. For every negative status value, a poll with any input behaves
  exactly as from status 0: the value is reset before the lookup, the lookup is inside
  the table, and the result is a valid combination of flags. A status above 6 is not
  reset: there the lookup reads outside the table.
\<close>

theorem negative_status_self_heals:
  "(sint (encoderStatus st) < 0 \<longrightarrow>
      getStatus x st = getStatus x (st\<lparr>encoderStatus := 0\<rparr>) \<and>
      (\<exists>r d st'. getStatus x st = Some (r, d, st') \<and> valid_result r)) \<and>
   (6 < sint (encoderStatus st) \<longrightarrow> getStatus x st = None)"
proof (intro conjI impI)
  assume neg: "sint (encoderStatus st) < 0"
  then have n: "norm_status (encoderStatus st) = 0" by (simp add: norm_status_def)
  have n0: "norm_status (encoderStatus (st\<lparr>encoderStatus := 0\<rparr>)) = 0"
    by (simp add: norm_status_def)
  show "getStatus x st = getStatus x (st\<lparr>encoderStatus := 0\<rparr>)"
    unfolding getStatus_eq n n0 poll_reset_status ..
  from neg have "sint (encoderStatus st) \<le> 6" by simp
  then obtain e where "getStatus x st
       = Some (poll_result x e st, poll_result x e st \<noteq> lastResult st, poll_state x e st)"
    by (rule getStatus_okE)
  with poll_result_valid [of x e st]
  show "\<exists>r d st'. getStatus x st = Some (r, d, st') \<and> valid_result r" by blast
next
  assume "6 < sint (encoderStatus st)"
  then have "norm_status (encoderStatus st) = encoderStatus st"
    by (simp add: norm_status_def)
  with makeTransition_undefined [OF \<open>6 < sint (encoderStatus st)\<close>]
  show "getStatus x st = None" unfolding getStatus_eq by simp
qed

theorem negative_status_self_heals_witness:
  "sint (- 5 :: 16 word) < 0 \<and> 6 < sint (7 :: 16 word) \<and>
   getStatus (smp HIGH LOW LOW 0) ((RotaryEncoder_init 2 3 (- 1) :: 16 RotaryEncoder)\<lparr>encoderStatus := - 5\<rparr>)
     = getStatus (smp HIGH LOW LOW 0) (RotaryEncoder_init 2 3 (- 1)) \<and>
   getStatus (smp HIGH LOW LOW 0) ((RotaryEncoder_init 2 3 (- 1) :: 16 RotaryEncoder)\<lparr>encoderStatus := - 5\<rparr>)
     = Some (None_t, False, (RotaryEncoder_init 2 3 (- 1))\<lparr>encoderStatus := 1\<rparr>) \<and>
   getStatus (smp HIGH LOW LOW 0) ((RotaryEncoder_init 2 3 (- 1) :: 16 RotaryEncoder)\<lparr>encoderStatus := 7\<rparr>)
     = None"
  using negative_status_self_heals [of "(RotaryEncoder_init 2 3 (- 1) :: 16 RotaryEncoder)\<lparr>encoderStatus := - 5\<rparr>"
      "smp HIGH LOW LOW 0"]
    negative_status_self_heals [of "(RotaryEncoder_init 2 3 (- 1) :: 16 RotaryEncoder)\<lparr>encoderStatus := 7\<rparr>"
      "smp HIGH LOW LOW 0"]
  by (simp add: eval_defs)

text \<open>
  The claim as first stated also covers the values above 6. At status 7 the poll reads
  \<open>transition[0][7]\<close>, outside the row, where status 0 gives \<open>None\<close> and status 0.
\<close>

theorem status_above_six_counterexample:
  "getStatus (smp LOW LOW LOW 0) ((RotaryEncoder_init 2 3 (- 1) :: 16 RotaryEncoder)\<lparr>encoderStatus := 7\<rparr>)
     = None \<and>
   getStatus (smp LOW LOW LOW 0) ((RotaryEncoder_init 2 3 (- 1) :: 16 RotaryEncoder)\<lparr>encoderStatus := 0\<rparr>)
     = Some (None_t, False, RotaryEncoder_init 2 3 (- 1))"
  by (simp add: eval_defs)

section \<open>A full cycle of the quadrature signal\<close>

lemma nonneg_not_sentinel:
  fixes e :: "'w::len word"
  assumes len: "16 \<le> LENGTH('w)" and "0 \<le> sint e"
  shows "e \<noteq> - 1" "e \<noteq> - 2"
proof -
  show "e \<noteq> - 1" using assms(2) by auto
  show "e \<noteq> - 2"
  proof
    assume "e = - 2"
    then have "sint e = - 2" by (simp only: sint_consts [OF len])
    with assms(2) show False by simp
  qed
qed

lemma sentinels_differ:
  assumes len: "16 \<le> LENGTH('w::len)"
  shows "(- 2 :: 'w word) \<noteq> - 1"
proof
  assume "(- 2 :: 'w word) = - 1"
  then have "sint (- 2 :: 'w word) = sint (- 1 :: 'w word)" by (rule arg_cong)
  then show False by (simp only: sint_consts [OF len] sint_n1)
qed

lemma states_nonneg:
  assumes len: "16 \<le> LENGTH('w::len)"
  shows "0 \<le> sint (0 :: 'w word)" "0 \<le> sint (1 :: 'w word)" "0 \<le> sint (2 :: 'w word)"
    "0 \<le> sint (3 :: 'w word)" "0 \<le> sint (4 :: 'w word)" "0 \<le> sint (5 :: 'w word)"
    "0 \<le> sint (6 :: 'w word)"
  by (simp_all only: sint_consts [OF len] sint_0)

lemma norm_status_nonneg: "0 \<le> sint e \<Longrightarrow> norm_status e = e"
  by (simp add: norm_status_def)

lemma move_flag_has:
  "has_flag (poll_result x e st) Forward \<longleftrightarrow> e = - 1"
  "has_flag (poll_result x e st) Reverse \<longleftrightarrow> e \<noteq> - 1 \<and> e = - 2"
  by (simp_all add: has_flag_def poll_result_def move_flag_def button_flag_def flag_defs)

text \<open>A poll that moves from one state to a state: nothing is reported, nothing counted.\<close>

lemma quiet_poll:
  fixes st :: "('w::len) RotaryEncoder"
  assumes len: "16 \<le> LENGTH('w)"
    and "encoderStatus st = c" "0 \<le> sint c" "0 \<le> sint e"
    and "makeTransition (readA x) (readB x) c = Some e"
  shows "\<exists>r d st'. getStatus x st = Some (r, d, st') \<and> encoderStatus st' = e
           \<and> \<not> has_flag r Forward \<and> \<not> has_flag r Reverse
           \<and> count st' = count st \<and> lowerLimit st' = lowerLimit st
           \<and> upperLimit st' = upperLimit st \<and> stepWidth st' = stepWidth st"
proof -
  have "norm_status (encoderStatus st) = c"
    using assms(2,3) by (simp add: norm_status_nonneg)
  with assms(5) have g: "getStatus x st
      = Some (poll_result x e st, poll_result x e st \<noteq> lastResult st, poll_state x e st)"
    unfolding getStatus_eq by simp
  from nonneg_not_sentinel [OF len assms(4)] have "new_count e st = count st"
    by (simp add: new_count_def)
  with g nonneg_not_sentinel [OF len assms(4)] show ?thesis
    by (simp add: move_flag_has)
qed

text \<open>The poll that closes a cycle.\<close>

lemma closing_poll:
  fixes st :: "('w::len) RotaryEncoder"
  assumes len: "16 \<le> LENGTH('w)"
    and "encoderStatus st = c" "0 \<le> sint c"
    and "makeTransition (readA x) (readB x) c = Some e"
  shows "\<exists>r d st'. getStatus x st = Some (r, d, st') \<and> encoderStatus st' = e
           \<and> (has_flag r Forward \<longleftrightarrow> e = - 1) \<and> (has_flag r Reverse \<longleftrightarrow> e = - 2)
           \<and> count st' = new_count e st"
proof -
  have "norm_status (encoderStatus st) = c"
    using assms(2,3) by (simp add: norm_status_nonneg)
  with assms(4) have g: "getStatus x st
      = Some (poll_result x e st, poll_result x e st \<noteq> lastResult st, poll_state x e st)"
    unfolding getStatus_eq by simp
  then show ?thesis using sentinels_differ [OF len]
    by (auto simp: move_flag_has)
qed


lemma new_count_cong:
  assumes "count st' = count st" "lowerLimit st' = lowerLimit st"
    "upperLimit st' = upperLimit st" "stepWidth st' = stepWidth st"
  shows "new_count e st' = new_count e st"
  using assms by (simp add: new_count_def accepted_def)

text \<open>Five polls along a path of the table that starts at status 0.\<close>

lemma cycle_polls:
  fixes st :: "('w::len) RotaryEncoder"
  assumes len: "16 \<le> LENGTH('w)" and start: "encoderStatus st = 0"
    and t0: "makeTransition (readA x0) (readB x0) (0 :: 'w word) = Some 0"
    and t1: "makeTransition (readA x1) (readB x1) (0 :: 'w word) = Some s1"
    and t2: "makeTransition (readA x2) (readB x2) s1 = Some s2"
    and t3: "makeTransition (readA x3) (readB x3) s2 = Some s3"
    and t4: "makeTransition (readA x4) (readB x4) s3 = Some e"
    and nonneg: "0 \<le> sint s1" "0 \<le> sint s2" "0 \<le> sint s3"
  shows "\<exists>rs st'. polls [x0, x1, x2, x3, x4] st = Some (rs, st')
           \<and> map (\<lambda>(r, d). has_flag r Forward) rs = [False, False, False, False, e = - 1]
           \<and> map (\<lambda>(r, d). has_flag r Reverse) rs = [False, False, False, False, e = - 2]
           \<and> count st' = new_count e st"
proof -
  have z: "0 \<le> sint (0 :: 'w word)" by simp
  from quiet_poll [OF len start z z t0] obtain r0 d0 st1 where
    g0: "getStatus x0 st = Some (r0, d0, st1)" and e1: "encoderStatus st1 = 0"
    and f0: "\<not> has_flag r0 Forward" "\<not> has_flag r0 Reverse"
    and k1: "count st1 = count st" "lowerLimit st1 = lowerLimit st"
      "upperLimit st1 = upperLimit st" "stepWidth st1 = stepWidth st"
    by blast
  from quiet_poll [OF len e1 z nonneg(1) t1] obtain r1 d1 st2 where
    g1: "getStatus x1 st1 = Some (r1, d1, st2)" and e2: "encoderStatus st2 = s1"
    and f1: "\<not> has_flag r1 Forward" "\<not> has_flag r1 Reverse"
    and k2: "count st2 = count st1" "lowerLimit st2 = lowerLimit st1"
      "upperLimit st2 = upperLimit st1" "stepWidth st2 = stepWidth st1"
    by blast
  from quiet_poll [OF len e2 nonneg(1) nonneg(2) t2] obtain r2 d2 st3 where
    g2: "getStatus x2 st2 = Some (r2, d2, st3)" and e3: "encoderStatus st3 = s2"
    and f2: "\<not> has_flag r2 Forward" "\<not> has_flag r2 Reverse"
    and k3: "count st3 = count st2" "lowerLimit st3 = lowerLimit st2"
      "upperLimit st3 = upperLimit st2" "stepWidth st3 = stepWidth st2"
    by blast
  from quiet_poll [OF len e3 nonneg(2) nonneg(3) t3] obtain r3 d3 st4 where
    g3: "getStatus x3 st3 = Some (r3, d3, st4)" and e4: "encoderStatus st4 = s3"
    and f3: "\<not> has_flag r3 Forward" "\<not> has_flag r3 Reverse"
    and k4: "count st4 = count st3" "lowerLimit st4 = lowerLimit st3"
      "upperLimit st4 = upperLimit st3" "stepWidth st4 = stepWidth st3"
    by blast
  from closing_poll [OF len e4 nonneg(3) t4] obtain r4 d4 st5 where
    g4: "getStatus x4 st4 = Some (r4, d4, st5)"
    and f4: "has_flag r4 Forward \<longleftrightarrow> e = - 1" "has_flag r4 Reverse \<longleftrightarrow> e = - 2"
    and k5: "count st5 = new_count e st4"
    by blast
  have "new_count e st4 = new_count e st"
    by (rule new_count_cong) (simp_all add: k1 k2 k3 k4)
  with k5 have c: "count st5 = new_count e st" by simp
  have "polls [x0, x1, x2, x3, x4] st
          = Some ([(r0, d0), (r1, d1), (r2, d2), (r3, d3), (r4, d4)], st5)"
    by (simp add: g0 g1 g2 g3 g4)
  with f0 f1 f2 f3 f4 c show ?thesis by simp
qed

lemma five_samples:
  assumes "map f xs = [p0, p1, p2, p3, p4]"
  obtains x0 x1 x2 x3 x4 where "xs = [x0, x1, x2, x3, x4]"
    "f x0 = p0" "f x1 = p1" "f x2 = p2" "f x3 = p3" "f x4 = p4"
  using assms by (auto simp: map_eq_Cons_conv)

text \<open>
  The sum \<open>getCount()+stepWidth\<close> and the difference \<open>getCount()-stepWidth\<close> are
  computed in \<open>unsigned int\<close> and converted back to \<open>int\<close>. They are the sum and the
  difference of the counter and the step width as numbers as long as these fit \<open>int\<close>.
\<close>

lemma sint_add_no_overflow:
  fixes a b :: "'w::len word"
  assumes "sint a + uint b < 2 ^ (LENGTH('w) - 1)"
  shows "sint (a + b) = sint a + uint b"
proof -
  have e: "a + b = word_of_int (sint a + uint b)" by simp
  have "- (2 ^ (LENGTH('w) - 1)) \<le> sint a" by (rule sint_ge)
  moreover have "0 \<le> uint b" by simp
  ultimately have "- (2 ^ (LENGTH('w) - 1)) \<le> sint a + uint b" by linarith
  with assms show ?thesis
    unfolding e by (simp only: sint_sbintrunc' signed_take_bit_int_eq_self)
qed

lemma sint_sub_no_overflow:
  fixes a b :: "'w::len word"
  assumes "- (2 ^ (LENGTH('w) - 1)) \<le> sint a - uint b"
  shows "sint (a - b) = sint a - uint b"
proof -
  have e: "a - b = word_of_int (sint a - uint b)" by simp
  have "sint a < 2 ^ (LENGTH('w) - 1)" by (rule sint_lt)
  moreover have "0 \<le> uint b" by simp
  ultimately have "sint a - uint b < 2 ^ (LENGTH('w) - 1)" by linarith
  with assms show ?thesis
    unfolding e by (simp only: sint_sbintrunc' signed_take_bit_int_eq_self)
qed

text \<open>
  C1, as amended. With an \<open>int\<close> of at least 16 bits: from status 0, five
  successive polls whose phase samples are the forward cycle (0,0), (1,0), (1,1),
  (0,1), (0,0), whatever the switch line and the clock do: the fifth poll and no other
  returns a result with \<open>Forward\<close>, and none returns \<open>Reverse\<close>. When the counter plus
  the step width does not overflow \<open>int\<close>, the counter grows by exactly the step width
  if the new value lies within \<open>[lowerLimit, upperLimit]\<close>, and stays as it was if the
  new value is above \<open>upperLimit\<close> or below \<open>lowerLimit\<close>. The mirrored cycle (0,0),
  (0,1), (1,1), (1,0), (0,0) gives one \<open>Reverse\<close> and no \<open>Forward\<close>, and when the counter
  minus the step width does not overflow \<open>int\<close>, the counter falls by exactly the step
  width under the same condition on the new value.
\<close>

theorem full_cycle_counts_once:
  fixes st :: "('w::len) RotaryEncoder"
  assumes len: "16 \<le> LENGTH('w)" and start: "encoderStatus st = 0"
  shows
    "(map phases xs = forward_cycle \<longrightarrow>
       (\<exists>rs st'. polls xs st = Some (rs, st')
          \<and> map (\<lambda>(r, d). has_flag r Forward) rs = [False, False, False, False, True]
          \<and> map (\<lambda>(r, d). has_flag r Reverse) rs = [False, False, False, False, False]
          \<and> (sint (count st) + uint (stepWidth st) < 2 ^ (LENGTH('w) - 1) \<longrightarrow>
               sint (count st') =
                 (if sint (lowerLimit st) \<le> sint (count st) + uint (stepWidth st)
                     \<and> sint (count st) + uint (stepWidth st) \<le> sint (upperLimit st)
                  then sint (count st) + uint (stepWidth st) else sint (count st))))) \<and>
     (map phases xs = reverse_cycle \<longrightarrow>
       (\<exists>rs st'. polls xs st = Some (rs, st')
          \<and> map (\<lambda>(r, d). has_flag r Reverse) rs = [False, False, False, False, True]
          \<and> map (\<lambda>(r, d). has_flag r Forward) rs = [False, False, False, False, False]
          \<and> (- (2 ^ (LENGTH('w) - 1)) \<le> sint (count st) - uint (stepWidth st) \<longrightarrow>
               sint (count st') =
                 (if sint (lowerLimit st) \<le> sint (count st) - uint (stepWidth st)
                     \<and> sint (count st) - uint (stepWidth st) \<le> sint (upperLimit st)
                  then sint (count st) - uint (stepWidth st) else sint (count st)))))"
proof (intro conjI impI)
  assume "map phases xs = forward_cycle"
  then obtain x0 x1 x2 x3 x4 where xs: "xs = [x0, x1, x2, x3, x4]"
    and p: "phases x0 = (LOW, LOW)" "phases x1 = (HIGH, LOW)" "phases x2 = (HIGH, HIGH)"
      "phases x3 = (LOW, HIGH)" "phases x4 = (LOW, LOW)"
    unfolding forward_cycle_def by (rule five_samples)
  from p have ab: "readA x0 = LOW" "readB x0 = LOW" "readA x1 = HIGH" "readB x1 = LOW"
    "readA x2 = HIGH" "readB x2 = HIGH" "readA x3 = LOW" "readB x3 = HIGH"
    "readA x4 = LOW" "readB x4 = LOW"
    by (simp_all add: phases_def)
  have "\<exists>rs st'. polls [x0, x1, x2, x3, x4] st = Some (rs, st')
           \<and> map (\<lambda>(r, d). has_flag r Forward) rs
               = [False, False, False, False, (- 1 :: 'w word) = - 1]
           \<and> map (\<lambda>(r, d). has_flag r Reverse) rs
               = [False, False, False, False, (- 1 :: 'w word) = - 2]
           \<and> count st' = new_count (- 1) st"
    by (rule cycle_polls [OF len start, where ?s1.0 = 1 and ?s2.0 = 2 and ?s3.0 = 3])
      (simp_all only: ab makeTransition_table [OF len] states_nonneg [OF len])
  then obtain rs st' where r: "polls xs st = Some (rs, st')"
    and f: "map (\<lambda>(r, d). has_flag r Forward) rs = [False, False, False, False, True]"
    and b: "map (\<lambda>(r, d). has_flag r Reverse) rs = [False, False, False, False, False]"
    and c: "count st' = new_count (- 1) st"
    using sentinels_differ [OF len] unfolding xs by auto
  have v: "sint (count st') =
                 (if sint (lowerLimit st) \<le> sint (count st) + uint (stepWidth st)
                     \<and> sint (count st) + uint (stepWidth st) \<le> sint (upperLimit st)
                  then sint (count st) + uint (stepWidth st) else sint (count st))"
    if "sint (count st) + uint (stepWidth st) < 2 ^ (LENGTH('w) - 1)"
    unfolding c using sint_add_no_overflow [OF that]
    by (simp add: new_count_def accepted_def)
  show "\<exists>rs st'. polls xs st = Some (rs, st')
          \<and> map (\<lambda>(r, d). has_flag r Forward) rs = [False, False, False, False, True]
          \<and> map (\<lambda>(r, d). has_flag r Reverse) rs = [False, False, False, False, False]
          \<and> (sint (count st) + uint (stepWidth st) < 2 ^ (LENGTH('w) - 1) \<longrightarrow>
               sint (count st') =
                 (if sint (lowerLimit st) \<le> sint (count st) + uint (stepWidth st)
                     \<and> sint (count st) + uint (stepWidth st) \<le> sint (upperLimit st)
                  then sint (count st) + uint (stepWidth st) else sint (count st)))"
    by (rule exI [of _ rs], rule exI [of _ st']) (intro conjI impI r f b v)
next
  assume "map phases xs = reverse_cycle"
  then obtain x0 x1 x2 x3 x4 where xs: "xs = [x0, x1, x2, x3, x4]"
    and p: "phases x0 = (LOW, LOW)" "phases x1 = (LOW, HIGH)" "phases x2 = (HIGH, HIGH)"
      "phases x3 = (HIGH, LOW)" "phases x4 = (LOW, LOW)"
    unfolding reverse_cycle_def by (rule five_samples)
  from p have ab: "readA x0 = LOW" "readB x0 = LOW" "readA x1 = LOW" "readB x1 = HIGH"
    "readA x2 = HIGH" "readB x2 = HIGH" "readA x3 = HIGH" "readB x3 = LOW"
    "readA x4 = LOW" "readB x4 = LOW"
    by (simp_all add: phases_def)
  have "\<exists>rs st'. polls [x0, x1, x2, x3, x4] st = Some (rs, st')
           \<and> map (\<lambda>(r, d). has_flag r Forward) rs
               = [False, False, False, False, (- 2 :: 'w word) = - 1]
           \<and> map (\<lambda>(r, d). has_flag r Reverse) rs
               = [False, False, False, False, (- 2 :: 'w word) = - 2]
           \<and> count st' = new_count (- 2) st"
    by (rule cycle_polls [OF len start, where ?s1.0 = 4 and ?s2.0 = 5 and ?s3.0 = 6])
      (simp_all only: ab makeTransition_table [OF len] states_nonneg [OF len])
  then obtain rs st' where r: "polls xs st = Some (rs, st')"
    and f: "map (\<lambda>(r, d). has_flag r Reverse) rs = [False, False, False, False, True]"
    and b: "map (\<lambda>(r, d). has_flag r Forward) rs = [False, False, False, False, False]"
    and c: "count st' = new_count (- 2) st"
    using sentinels_differ [OF len] unfolding xs by auto
  have v: "sint (count st') =
                 (if sint (lowerLimit st) \<le> sint (count st) - uint (stepWidth st)
                     \<and> sint (count st) - uint (stepWidth st) \<le> sint (upperLimit st)
                  then sint (count st) - uint (stepWidth st) else sint (count st))"
    if "- (2 ^ (LENGTH('w) - 1)) \<le> sint (count st) - uint (stepWidth st)"
    unfolding c using sint_sub_no_overflow [OF that] sentinels_differ [OF len]
    by (simp add: new_count_def accepted_def)
  show "\<exists>rs st'. polls xs st = Some (rs, st')
          \<and> map (\<lambda>(r, d). has_flag r Reverse) rs = [False, False, False, False, True]
          \<and> map (\<lambda>(r, d). has_flag r Forward) rs = [False, False, False, False, False]
          \<and> (- (2 ^ (LENGTH('w) - 1)) \<le> sint (count st) - uint (stepWidth st) \<longrightarrow>
               sint (count st') =
                 (if sint (lowerLimit st) \<le> sint (count st) - uint (stepWidth st)
                     \<and> sint (count st) - uint (stepWidth st) \<le> sint (upperLimit st)
                  then sint (count st) - uint (stepWidth st) else sint (count st)))"
    by (rule exI [of _ rs], rule exI [of _ st']) (intro conjI impI r f b v)
qed

theorem full_cycle_counts_once_witness:
  "sint (0 :: 16 word) + uint (1 :: 16 word) < 2 ^ (LENGTH(16) - 1) \<and>
   - (2 ^ (LENGTH(16) - 1)) \<le> sint (5 :: 16 word) - uint (1 :: 16 word) \<and>
   (\<exists>rs st'. polls [smp LOW LOW LOW 1, smp HIGH LOW LOW 2, smp HIGH HIGH LOW 3, smp LOW HIGH LOW 4,
                    smp LOW LOW LOW 5] (RotaryEncoder_init 2 3 (- 1) :: 16 RotaryEncoder)
               = Some (rs, st')
          \<and> map (\<lambda>(r, d). has_flag r Forward) rs = [False, False, False, False, True]
          \<and> map (\<lambda>(r, d). has_flag r Reverse) rs = [False, False, False, False, False]
          \<and> sint (count st') = 1) \<and>
   (\<exists>rs st'. polls [smp LOW LOW LOW 1, smp LOW HIGH LOW 2, smp HIGH HIGH LOW 3, smp HIGH LOW LOW 4,
                    smp LOW LOW LOW 5] (setCount 5 (RotaryEncoder_init 2 3 (- 1)) :: 16 RotaryEncoder)
               = Some (rs, st')
          \<and> map (\<lambda>(r, d). has_flag r Reverse) rs = [False, False, False, False, True]
          \<and> map (\<lambda>(r, d). has_flag r Forward) rs = [False, False, False, False, False]
          \<and> sint (count st') = 4)"
proof -
  let ?init = "RotaryEncoder_init 2 3 (- 1) :: 16 RotaryEncoder"
  let ?fwd = "[smp LOW LOW LOW 1, smp HIGH LOW LOW 2, smp HIGH HIGH LOW 3, smp LOW HIGH LOW 4,
               smp LOW LOW LOW 5]"
  let ?rev = "[smp LOW LOW LOW 1, smp LOW HIGH LOW 2, smp HIGH HIGH LOW 3, smp HIGH LOW LOW 4,
               smp LOW LOW LOW 5]"
  have len: "16 \<le> LENGTH(16)" by simp
  have s1: "encoderStatus ?init = 0" by (simp add: RotaryEncoder_init_def)
  have s2: "encoderStatus (setCount 5 ?init) = 0"
    by (simp add: RotaryEncoder_init_def setCount_def)
  have f: "map phases ?fwd = forward_cycle"
    by (simp add: phases_def smp_def forward_cycle_def)
  have r: "map phases ?rev = reverse_cycle"
    by (simp add: phases_def smp_def reverse_cycle_def)
  have v: "count ?init = 0" "stepWidth ?init = 1" "lowerLimit ?init = 0" "upperLimit ?init = 10"
    "count (setCount 5 ?init) = 5" "stepWidth (setCount 5 ?init) = 1"
    "lowerLimit (setCount 5 ?init) = 0" "upperLimit (setCount 5 ?init) = 10"
    by (simp_all add: RotaryEncoder_init_def setCount_def)
  have o1: "sint (0 :: 16 word) + uint (1 :: 16 word) < 2 ^ (LENGTH(16) - 1)" by simp
  have o2: "- (2 ^ (LENGTH(16) - 1)) \<le> sint (5 :: 16 word) - uint (1 :: 16 word)" by simp
  from full_cycle_counts_once [OF len s1, of ?fwd, THEN conjunct1, rule_format, OF f]
  have A: "\<exists>rs st'. polls ?fwd ?init = Some (rs, st')
          \<and> map (\<lambda>(r, d). has_flag r Forward) rs = [False, False, False, False, True]
          \<and> map (\<lambda>(r, d). has_flag r Reverse) rs = [False, False, False, False, False]
          \<and> sint (count st') = 1"
    unfolding v by (simp del: polls.simps)
  from full_cycle_counts_once [OF len s2, of ?rev, THEN conjunct2, rule_format, OF r]
  have B: "\<exists>rs st'. polls ?rev (setCount 5 ?init) = Some (rs, st')
          \<and> map (\<lambda>(r, d). has_flag r Reverse) rs = [False, False, False, False, True]
          \<and> map (\<lambda>(r, d). has_flag r Forward) rs = [False, False, False, False, False]
          \<and> sint (count st') = 4"
    unfolding v by (simp del: polls.simps)
  show ?thesis by (intro conjI o1 o2 A B)
qed

text \<open>
  The claim as first stated rejects the write only when the new value exceeds
  \<open>upperLimit\<close>. After \<open>setRange(5, 3, 1)\<close> on a new object the counter is 0 and the
  forward cycle computes 1, which does not exceed the upper limit 3; the poll reports
  \<open>Forward\<close> and the counter stays 0, since 1 is below the lower limit 5.
\<close>

theorem forward_cycle_counterexample:
  "encoderStatus (setRange 5 3 1 (RotaryEncoder_init 2 3 (- 1)) :: 16 RotaryEncoder) = 0 \<and>
   map phases [smp LOW LOW LOW 1, smp HIGH LOW LOW 2, smp HIGH HIGH LOW 3, smp LOW HIGH LOW 4,
               smp LOW LOW LOW 5] = forward_cycle \<and>
   count (setRange 5 3 1 (RotaryEncoder_init 2 3 (- 1)) :: 16 RotaryEncoder) = 0 \<and>
   stepWidth (setRange 5 3 1 (RotaryEncoder_init 2 3 (- 1)) :: 16 RotaryEncoder) = 1 \<and>
   upperLimit (setRange 5 3 1 (RotaryEncoder_init 2 3 (- 1)) :: 16 RotaryEncoder) = 3 \<and>
   sint (0 + 1 :: 16 word) \<le> sint (3 :: 16 word) \<and>
   map_option (\<lambda>(rs, st'). (map fst rs, count st'))
     (polls [smp LOW LOW LOW 1, smp HIGH LOW LOW 2, smp HIGH HIGH LOW 3, smp LOW HIGH LOW 4,
             smp LOW LOW LOW 5] (setRange 5 3 1 (RotaryEncoder_init 2 3 (- 1)) :: 16 RotaryEncoder))
     = Some ([None_t, None_t, None_t, None_t, Forward], 0)"
  by (simp add: eval_defs phases_def forward_cycle_def)

section \<open>The long press\<close>

lemma button_has:
  "has_flag (poll_result x e st) ButtonPressed
     \<longleftrightarrow> switch_level x st \<noteq> switchStatus st \<and> switch_level x st = HIGH"
  "has_flag (poll_result x e st) ButtonReleased
     \<longleftrightarrow> switch_level x st \<noteq> switchStatus st \<and> switch_level x st = LOW"
  "has_flag (poll_result x e st) ButtonLongPressed
     \<longleftrightarrow> switch_level x st = switchStatus st \<and> switch_level x st = HIGH
         \<and> long_press (millis x) st"
  by (cases "switch_level x st"; cases "switchStatus st";
      simp add: has_flag_def poll_result_def move_flag_def button_flag_def flag_defs)+

lemma getStatus_le6_status_ok:
  fixes st :: "('w::len) RotaryEncoder"
  assumes len: "16 \<le> LENGTH('w)" and "sint (encoderStatus st) \<le> 6"
    and "getStatus x st = Some (r, d, st')"
  shows "status_ok st'"
proof -
  from assms(3) obtain e where
    e: "makeTransition (readA x) (readB x) (norm_status (encoderStatus st)) = Some e"
    and st': "st' = poll_state x e st"
    by (rule getStatus_SomeE)
  from makeTransition_entries [OF len norm_status_range [OF assms(2)] e]
  show ?thesis unfolding st' status_ok_def poll_state_simps
    by (rule entries_sint [OF len])
qed

lemma polls_defined:
  fixes st :: "('w::len) RotaryEncoder"
  assumes len: "16 \<le> LENGTH('w)" and "sint (encoderStatus st) \<le> 6"
  shows "\<exists>rs st'. polls xs st = Some (rs, st') \<and> length rs = length xs"
  using assms(2)
proof (induction xs arbitrary: st)
  case Nil
  then show ?case by simp
next
  case (Cons x xs)
  from Cons.prems obtain e where g: "getStatus x st
       = Some (poll_result x e st, poll_result x e st \<noteq> lastResult st, poll_state x e st)"
    by (rule getStatus_okE)
  from getStatus_le6_status_ok [OF len Cons.prems g]
  have "sint (encoderStatus (poll_state x e st)) \<le> 6" by (simp add: status_ok_def)
  from Cons.IH [OF this] g show ?case by auto
qed

lemma polls_ConsE:
  assumes "polls (x # xs) st = Some (rs, st')"
  obtains r d st1 rs1 where "getStatus x st = Some (r, d, st1)"
    "polls xs st1 = Some (rs1, st')" "rs = (r, d) # rs1"
  using assms by (auto split: option.splits)

text \<open>Without a timeout no poll reports a long press.\<close>

lemma polls_no_timeout:
  assumes "timeout st = 0" "polls xs st = Some (rs, st')"
  shows "\<forall>(r, d)\<in>set rs. \<not> has_flag r ButtonLongPressed"
  using assms
proof (induction xs arbitrary: st rs)
  case Nil
  then show ?case by simp
next
  case (Cons x xs)
  from Cons.prems(2) obtain r d st1 rs1 where g: "getStatus x st = Some (r, d, st1)"
    and p: "polls xs st1 = Some (rs1, st')" and rs: "rs = (r, d) # rs1"
    by (rule polls_ConsE)
  from g obtain e where r: "r = poll_result x e st" and st1: "st1 = poll_state x e st"
    by (rule getStatus_SomeE)
  have "\<not> has_flag r ButtonLongPressed"
    using Cons.prems(1) by (simp add: r button_has long_press_def)
  moreover have "timeout st1 = 0" using Cons.prems(1) by (simp add: st1)
  from Cons.IH [OF this p] have "\<forall>(r, d)\<in>set rs1. \<not> has_flag r ButtonLongPressed" .
  ultimately show ?case by (simp add: rs)
qed

text \<open>The switch is held: pin set, stored level and sampled level both \<open>HIGH\<close>.\<close>

lemma held_poll:
  assumes "0 \<le> sint (switchPin st)" "switchStatus st = HIGH" "readS y = HIGH"
    and "getStatus y st = Some (r, d, st')"
  shows "has_flag r ButtonLongPressed \<longleftrightarrow> long_press (millis y) st"
    and "timePressed st' = (if long_press (millis y) st then 0 else timePressed st)"
    and "switchStatus st' = HIGH" and "switchPin st' = switchPin st"
    and "timeout st' = timeout st"
proof -
  from assms(4) obtain e where r: "r = poll_result y e st" and st': "st' = poll_state y e st"
    by (rule getStatus_SomeE)
  have l: "switch_level y st = HIGH" using assms(1,3) by (simp add: switch_level_def)
  show "has_flag r ButtonLongPressed \<longleftrightarrow> long_press (millis y) st"
    by (simp add: r button_has l assms(2))
  show "timePressed st' = (if long_press (millis y) st then 0 else timePressed st)"
    by (simp add: st' l new_timePressed_def assms(2))
  show "switchStatus st' = HIGH" by (simp add: st' l)
  show "switchPin st' = switchPin st" "timeout st' = timeout st" by (simp_all add: st')
qed

text \<open>Once the press timestamp is cleared, a held switch reports nothing more.\<close>

lemma held_polls_cleared:
  assumes "0 \<le> sint (switchPin st)" "switchStatus st = HIGH" "timePressed st = 0"
    and "\<forall>y\<in>set ys. readS y = HIGH" and "polls ys st = Some (rs, st')"
  shows "\<forall>k<length rs. \<not> has_flag (fst (rs ! k)) ButtonLongPressed"
  using assms
proof (induction ys arbitrary: st rs)
  case Nil
  then show ?case by simp
next
  case (Cons y ys)
  from Cons.prems(5) obtain r d st1 rs1 where g: "getStatus y st = Some (r, d, st1)"
    and p: "polls ys st1 = Some (rs1, st')" and rs: "rs = (r, d) # rs1"
    by (rule polls_ConsE)
  from Cons.prems(4) have y: "readS y = HIGH" and ys: "\<forall>y\<in>set ys. readS y = HIGH" by simp_all
  note h = held_poll [OF Cons.prems(1,2) y g]
  have n: "\<not> long_press (millis y) st" using Cons.prems(3) by (simp add: long_press_def)
  from h(1) n have r0: "\<not> has_flag r ButtonLongPressed" by simp
  from h(2) n Cons.prems(3) have "timePressed st1 = 0" by simp
  from Cons.IH [OF _ h(3) this ys p] h(4) Cons.prems(1)
  have "\<forall>k<length rs1. \<not> has_flag (fst (rs1 ! k)) ButtonLongPressed" by simp
  with r0 show ?case by (simp add: rs nth_Cons split: nat.split)
qed

text \<open>
  While the press timestamp \<open>t0\<close> stands, the long press is reported by the first poll
  whose clock is more than the timeout after \<open>t0\<close>, and by no other.
\<close>

lemma held_polls_pending:
  assumes "0 \<le> sint (switchPin st)" "switchStatus st = HIGH"
    and "timePressed st = t0" "t0 \<noteq> 0" "timeout st = T" "T \<noteq> 0"
    and "\<forall>y\<in>set ys. readS y = HIGH" and "polls ys st = Some (rs, st')"
  shows "\<forall>k<length rs. has_flag (fst (rs ! k)) ButtonLongPressed
           \<longleftrightarrow> (T < millis (ys ! k) - t0 \<and> (\<forall>j<k. \<not> T < millis (ys ! j) - t0))"
  using assms
proof (induction ys arbitrary: st rs)
  case Nil
  then show ?case by simp
next
  case (Cons y ys)
  from Cons.prems(8) obtain r d st1 rs1 where g: "getStatus y st = Some (r, d, st1)"
    and p: "polls ys st1 = Some (rs1, st')" and rs: "rs = (r, d) # rs1"
    by (rule polls_ConsE)
  from Cons.prems(7) have y: "readS y = HIGH" and ys: "\<forall>y\<in>set ys. readS y = HIGH" by simp_all
  note h = held_poll [OF Cons.prems(1,2) y g]
  have lp: "long_press (millis y) st \<longleftrightarrow> T < millis y - t0"
    using Cons.prems(3,4,5,6) by (simp add: long_press_def)
  have pin: "0 \<le> sint (switchPin st1)" using h(4) Cons.prems(1) by simp
  show ?case
  proof (cases "T < millis y - t0")
    case True
    with h(2) lp have "timePressed st1 = 0" by simp
    from held_polls_cleared [OF pin h(3) this ys p]
    have "\<forall>k<length rs1. \<not> has_flag (fst (rs1 ! k)) ButtonLongPressed" .
    with True h(1) lp show ?thesis
      by (auto simp: rs nth_Cons split: nat.split)
  next
    case False
    with h(2) lp Cons.prems(3) have "timePressed st1 = t0" by simp
    from Cons.IH [OF pin h(3) this Cons.prems(4) _ Cons.prems(6) ys p] h(5) Cons.prems(5)
    have IH: "\<forall>k<length rs1. has_flag (fst (rs1 ! k)) ButtonLongPressed
           \<longleftrightarrow> (T < millis (ys ! k) - t0 \<and> (\<forall>j<k. \<not> T < millis (ys ! j) - t0))"
      by simp
    show ?thesis
    proof (intro allI impI)
      fix k assume k: "k < length rs"
      show "has_flag (fst (rs ! k)) ButtonLongPressed
           \<longleftrightarrow> (T < millis ((y # ys) ! k) - t0 \<and> (\<forall>j<k. \<not> T < millis ((y # ys) ! j) - t0))"
      proof (cases k)
        case 0
        with False h(1) lp show ?thesis by (simp add: rs)
      next
        case (Suc k')
        with k have "k' < length rs1" by (simp add: rs)
        with IH have "has_flag (fst (rs1 ! k')) ButtonLongPressed
           \<longleftrightarrow> (T < millis (ys ! k') - t0 \<and> (\<forall>j<k'. \<not> T < millis (ys ! j) - t0))"
          by blast
        moreover have "(\<forall>j<Suc k'. \<not> T < millis ((y # ys) ! j) - t0)
            \<longleftrightarrow> (\<forall>j<k'. \<not> T < millis (ys ! j) - t0)"
          using False by (simp add: All_less_Suc2)
        ultimately show ?thesis by (simp add: Suc rs)
      qed
    qed
  qed
qed


text \<open>
  C7, as amended. With an \<open>int\<close> of at least 16 bits and a status of at most 6
  (every status the public operations produce). Without a timeout (\<open>timeout = 0\<close>)
  no poll of any sequence returns \<open>ButtonLongPressed\<close>. With a timeout \<open>T > 0\<close> and a switch pin: a poll that
  finds the released switch pressed, at a clock value other than 0, returns
  \<open>ButtonPressed\<close>; of the polls that follow with the switch still pressed, the first
  whose clock is more than \<open>T\<close> milliseconds after the press (the unsigned difference
  of the two clock values exceeds \<open>T\<close>) returns \<open>ButtonLongPressed\<close>, and no other
  does.
\<close>

theorem long_press_once:
  fixes st :: "('w::len) RotaryEncoder"
  assumes len: "16 \<le> LENGTH('w)" and ok: "sint (encoderStatus st) \<le> 6"
  shows
    "(timeout st = 0 \<longrightarrow>
       (\<exists>rs st'. polls xs st = Some (rs, st') \<and> length rs = length xs
          \<and> (\<forall>(r, d)\<in>set rs. \<not> has_flag r ButtonLongPressed))) \<and>
     (timeout st \<noteq> 0 \<and> 0 \<le> sint (switchPin st) \<and> switchStatus st = LOW
        \<and> readS x = HIGH \<and> millis x \<noteq> 0 \<and> (\<forall>y\<in>set ys. readS y = HIGH) \<longrightarrow>
       (\<exists>r d st1 rs st'. getStatus x st = Some (r, d, st1)
          \<and> has_flag r ButtonPressed \<and> \<not> has_flag r ButtonLongPressed
          \<and> polls ys st1 = Some (rs, st') \<and> length rs = length ys
          \<and> (\<forall>k<length ys. has_flag (fst (rs ! k)) ButtonLongPressed
                \<longleftrightarrow> (timeout st < millis (ys ! k) - millis x
                     \<and> (\<forall>j<k. \<not> timeout st < millis (ys ! j) - millis x)))))"
proof (intro conjI impI)
  assume t: "timeout st = 0"
  from polls_defined [OF len ok] obtain rs st' where
    p: "polls xs st = Some (rs, st')" and l: "length rs = length xs" by blast
  from polls_no_timeout [OF t p] p l
  show "\<exists>rs st'. polls xs st = Some (rs, st') \<and> length rs = length xs
          \<and> (\<forall>(r, d)\<in>set rs. \<not> has_flag r ButtonLongPressed)" by blast
next
  assume a: "timeout st \<noteq> 0 \<and> 0 \<le> sint (switchPin st) \<and> switchStatus st = LOW
        \<and> readS x = HIGH \<and> millis x \<noteq> 0 \<and> (\<forall>y\<in>set ys. readS y = HIGH)"
  from ok obtain e where g: "getStatus x st
       = Some (poll_result x e st, poll_result x e st \<noteq> lastResult st, poll_state x e st)"
    by (rule getStatus_okE)
  let ?r = "poll_result x e st" and ?st1 = "poll_state x e st"
  from a have l: "switch_level x st = HIGH" by (simp add: switch_level_def)
  from a l have f: "has_flag ?r ButtonPressed" "\<not> has_flag ?r ButtonLongPressed"
    by (simp_all add: button_has)
  from getStatus_le6_status_ok [OF len ok g] have "sint (encoderStatus ?st1) \<le> 6"
    by (simp add: status_ok_def)
  from polls_defined [OF len this] obtain rs st' where
    p: "polls ys ?st1 = Some (rs, st')" and n: "length rs = length ys" by blast
  have "\<forall>k<length rs. has_flag (fst (rs ! k)) ButtonLongPressed
           \<longleftrightarrow> (timeout st < millis (ys ! k) - millis x
                \<and> (\<forall>j<k. \<not> timeout st < millis (ys ! j) - millis x))"
  proof (rule held_polls_pending [OF _ _ _ _ _ _ _ p])
    show "0 \<le> sint (switchPin ?st1)" using a by simp
    show "switchStatus ?st1 = HIGH" using l by simp
    show "timePressed ?st1 = millis x" using a l by (simp add: new_timePressed_def)
    show "millis x \<noteq> 0" using a by simp
    show "timeout ?st1 = timeout st" by simp
    show "timeout st \<noteq> 0" using a by simp
    show "\<forall>y\<in>set ys. readS y = HIGH" using a by simp
  qed
  with g f p n
  show "\<exists>r d st1 rs st'. getStatus x st = Some (r, d, st1)
          \<and> has_flag r ButtonPressed \<and> \<not> has_flag r ButtonLongPressed
          \<and> polls ys st1 = Some (rs, st') \<and> length rs = length ys
          \<and> (\<forall>k<length ys. has_flag (fst (rs ! k)) ButtonLongPressed
                \<longleftrightarrow> (timeout st < millis (ys ! k) - millis x
                     \<and> (\<forall>j<k. \<not> timeout st < millis (ys ! j) - millis x)))"
    by (intro exI [of _ ?r] exI [of _ "?r \<noteq> lastResult st"] exI [of _ ?st1] exI [of _ rs]
        exI [of _ st']) simp
qed

lemma all_less_two: "(\<forall>j<(2::nat). P j) \<longleftrightarrow> P 0 \<and> P 1"
  by (auto simp: less_2_cases_iff)

theorem long_press_once_witness:
  "(\<exists>rs st'. polls [smp LOW LOW HIGH 1000, smp LOW LOW HIGH 5000]
                (RotaryEncoder_init 2 3 4 :: 16 RotaryEncoder) = Some (rs, st')
       \<and> length rs = Suc (Suc 0) \<and> (\<forall>(r, d)\<in>set rs. \<not> has_flag r ButtonLongPressed)) \<and>
   (\<exists>r d st1 rs st'.
       getStatus (smp LOW LOW HIGH 1000) (setSwitchTimeout 500 (RotaryEncoder_init 2 3 4) :: 16 RotaryEncoder)
         = Some (r, d, st1)
       \<and> has_flag r ButtonPressed \<and> \<not> has_flag r ButtonLongPressed
       \<and> polls [smp LOW LOW HIGH 1500, smp LOW LOW HIGH 1501, smp LOW LOW HIGH 1502] st1
           = Some (rs, st')
       \<and> map (\<lambda>(r, d). has_flag r ButtonLongPressed) rs = [False, True, False])"
proof -
  let ?init = "RotaryEncoder_init 2 3 4 :: 16 RotaryEncoder"
  let ?ys = "[smp LOW LOW HIGH 1500, smp LOW LOW HIGH 1501, smp LOW LOW HIGH 1502]"
  have len: "16 \<le> LENGTH(16)" by simp
  have ok: "sint (encoderStatus ?init) \<le> 6" "sint (encoderStatus (setSwitchTimeout 500 ?init)) \<le> 6"
    by (simp_all add: RotaryEncoder_init_def setSwitchTimeout_def)
  have t0: "timeout ?init = 0" by (simp add: RotaryEncoder_init_def)
  have a: "timeout (setSwitchTimeout 500 ?init) \<noteq> 0
      \<and> 0 \<le> sint (switchPin (setSwitchTimeout 500 ?init))
      \<and> switchStatus (setSwitchTimeout 500 ?init) = LOW
      \<and> readS (smp LOW LOW HIGH 1000) = HIGH \<and> millis (smp LOW LOW HIGH 1000) \<noteq> 0
      \<and> (\<forall>y\<in>set ?ys. readS y = HIGH)"
    by (simp add: RotaryEncoder_init_def setSwitchTimeout_def smp_def)
  have 1: "\<exists>rs st'. polls [smp LOW LOW HIGH 1000, smp LOW LOW HIGH 5000] ?init = Some (rs, st')
       \<and> length rs = Suc (Suc 0) \<and> (\<forall>(r, d)\<in>set rs. \<not> has_flag r ButtonLongPressed)"
    using long_press_once [OF len ok(1), THEN conjunct1, rule_format, OF t0,
        of "[smp LOW LOW HIGH 1000, smp LOW LOW HIGH 5000]"]
    by (simp del: polls.simps)
  from long_press_once [OF len ok(2), THEN conjunct2, rule_format, OF a]
  obtain r d st1 rs st' where
    g: "getStatus (smp LOW LOW HIGH 1000) (setSwitchTimeout 500 ?init) = Some (r, d, st1)"
    and f: "has_flag r ButtonPressed" "\<not> has_flag r ButtonLongPressed"
    and p: "polls ?ys st1 = Some (rs, st')" and n: "length rs = length ?ys"
    and k: "\<forall>k<length ?ys. has_flag (fst (rs ! k)) ButtonLongPressed
                \<longleftrightarrow> (timeout (setSwitchTimeout 500 ?init)
                        < millis (?ys ! k) - millis (smp LOW LOW HIGH 1000)
                     \<and> (\<forall>j<k. \<not> timeout (setSwitchTimeout 500 ?init)
                        < millis (?ys ! j) - millis (smp LOW LOW HIGH 1000)))"
    by blast
  from n obtain q0 q1 q2 where rs: "rs = [q0, q1, q2]"
    by (auto simp: length_Suc_conv numeral_3_eq_3)
  from k [rule_format, of 0] k [rule_format, of 1] k [rule_format, of 2]
  have "\<not> has_flag (fst q0) ButtonLongPressed" "has_flag (fst q1) ButtonLongPressed"
    "\<not> has_flag (fst q2) ButtonLongPressed"
    by (simp_all add: rs setSwitchTimeout_def smp_def all_less_two)
  then have m: "map (\<lambda>(r, d). has_flag r ButtonLongPressed) rs = [False, True, False]"
    by (simp add: rs case_prod_beta)
  have 2: "\<exists>r d st1 rs st'.
       getStatus (smp LOW LOW HIGH 1000) (setSwitchTimeout 500 ?init) = Some (r, d, st1)
       \<and> has_flag r ButtonPressed \<and> \<not> has_flag r ButtonLongPressed
       \<and> polls ?ys st1 = Some (rs, st')
       \<and> map (\<lambda>(r, d). has_flag r ButtonLongPressed) rs = [False, True, False]"
    by (rule exI [of _ r], rule exI [of _ d], rule exI [of _ st1], rule exI [of _ rs],
        rule exI [of _ st']) (simp add: g f p m del: polls.simps)
  from 1 2 show ?thesis by (rule conjI)
qed

text \<open>
  The claim as first stated has the long press at the first poll with at least \<open>T\<close>
  milliseconds elapsed. With \<open>T = 500\<close> and a press at 1000, the poll at 1500 returns
  \<open>None\<close>; the poll at 1501 returns \<open>ButtonLongPressed\<close>.
\<close>

theorem long_press_counterexample:
  "(500 :: 32 word) \<le> 1500 - 1000 \<and>
   map_option (\<lambda>(rs, st'). map fst rs)
     (polls [smp LOW LOW HIGH 1000, smp LOW LOW HIGH 1500, smp LOW LOW HIGH 1501]
        (setSwitchTimeout 500 (RotaryEncoder_init 2 3 4) :: 16 RotaryEncoder))
     = Some [ButtonPressed, None_t, ButtonLongPressed]"
  by (simp add: eval_defs)

section \<open>Polls of an unchanged input\<close>












end
